theory Spec2Isabelle
  imports Main
begin

section \<open>Python values and strings\<close>

text \<open>
  A Python \<^verbatim>\<open>str\<close> is a sequence of Unicode code points, so it is modelled as a list of
  natural numbers. \<open>ascii\<close> turns an ASCII literal into such a list; the three emoji
  of the messages are given by their code points.
\<close>

type_synonym pystr = "nat list"

definition ascii :: "string \<Rightarrow> pystr" where
  "ascii s = map of_char s"

definition CHECK_MARK :: pystr where
  "CHECK_MARK = [0x2705]"

definition CROSS_MARK :: pystr where
  "CROSS_MARK = [0x274C]"

definition WARNING_SIGN :: pystr where
  "WARNING_SIGN = [0x26A0, 0xFE0F]"

definition NL :: nat where
  "NL = 10"

text \<open>
  \<^verbatim>\<open>needle in haystack\<close> on strings: \<open>needle\<close> occurs as a contiguous block.
\<close>

fun startswith :: "'a list \<Rightarrow> 'a list \<Rightarrow> bool" where
  "startswith s [] = True"
| "startswith [] (p # ps) = False"
| "startswith (c # cs) (p # ps) = (c = p \<and> startswith cs ps)"

fun py_in :: "'a list \<Rightarrow> 'a list \<Rightarrow> bool" where
  "py_in needle [] = (needle = [])"
| "py_in needle (c # cs) = (startswith (c # cs) needle \<or> py_in needle cs)"

text \<open>\<^verbatim>\<open>str(n)\<close> for an integer: decimal digits, with a minus sign when negative.\<close>

function str_nat :: "nat \<Rightarrow> pystr" where
  "str_nat n = (if n < 10 then [48 + n] else str_nat (n div 10) @ [48 + n mod 10])"
  by pat_completeness auto
termination
  by (relation "measure (\<lambda>n. n)") auto

declare str_nat.simps [simp del]

definition str_int :: "int \<Rightarrow> pystr" where
  "str_int i = (if i < 0 then 45 # str_nat (nat (- i)) else str_nat (nat i))"

text \<open>The format \<^verbatim>\<open>f"{d:02d}"\<close>: zero-padded to width two (the sign counts).\<close>

definition fmt_02d :: "int \<Rightarrow> pystr" where
  "fmt_02d d = (if 0 \<le> d \<and> d < 10 then 48 # str_int d else str_int d)"

text \<open>
  The answer handed to \<^verbatim>\<open>submit\<close> is any Python object; the objects a puzzle answer
  can be are \<^verbatim>\<open>None\<close>, a bool, an int or a str. \<open>str\<close> is Python's \<^verbatim>\<open>str()\<close> on them,
  \<open>str_opt\<close> is \<^verbatim>\<open>str()\<close> (and f-string formatting) of an \<^verbatim>\<open>Optional[str]\<close> such as the
  value of \<^verbatim>\<open>os.getenv\<close>.
\<close>

datatype pyobj = PyNone | PyBool bool | PyInt int | PyStr pystr

fun str :: "pyobj \<Rightarrow> pystr" where
  "str PyNone = ascii ''None''"
| "str (PyBool b) = (if b then ascii ''True'' else ascii ''False'')"
| "str (PyInt i) = str_int i"
| "str (PyStr s) = s"

fun str_opt :: "pystr option \<Rightarrow> pystr" where
  "str_opt None = ascii ''None''"
| "str_opt (Some s) = s"

text \<open>
  Exceptions (subclasses of \<^verbatim>\<open>Exception\<close>) that the collaborators and library calls of
  the program can raise. \<open>Abort\<close> is \<^verbatim>\<open>click.Abort\<close>.
\<close>

datatype py_exception =
    CalledProcessError
  | FileNotFoundError
  | PermissionError
  | Abort
  | OtherException pystr


section \<open>The world the program runs in\<close>

text \<open>
  The Progress Store holds the dictionary under the key \<^verbatim>\<open>"progress"\<close> of the progress
  file: year string to day string to star count.
\<close>

record progress_data =
  progress :: "pystr \<rightharpoonup> (pystr \<rightharpoonup> int)"

text \<open>
  Paths: the scratch file \<^verbatim>\<open>_utils.NOTEPAD_PATH\<close>, and a path below
  \<^verbatim>\<open>_utils.SOLUTIONS_DIR\<close> given by its components.
\<close>

datatype path = NOTEPAD_PATH | SOLUTIONS_DIR "pystr list"

datatype log_level = INFO | WARNING | ERROR

datatype io_op = Exists path | ReadText path | Mkdir path | WriteText path

text \<open>
  Every call that leaves the module is recorded, in order, in the trace of the world:
  logger calls (by level), the Progress Store, the gateway, the formatter, the file
  system, version control, the terminal and the Context Store. \<open>EvCallBind\<close> marks
  the entry into \<^verbatim>\<open>bind\<close>, the Archive Engine.
\<close>

datatype event =
    EvLog log_level
  | EvReadProgress
  | EvWriteProgress progress_data
  | EvScrape int int
  | EvPostAnswer int int int pyobj
  | EvCallBind int bool
  | EvRuffFormat
  | EvReadText path
  | EvMkdir path
  | EvWriteText path pystr
  | EvGitCommit int int int
  | EvEcho pystr
  | EvWriteContext int int

record world =
  progress_file :: progress_data
  context_file :: "(int \<times> int) option"
  files :: "path \<rightharpoonup> pystr"
  trace :: "event list"

text \<open>
  The module-level values fixed when the module is imported: the Test Mode flag, the
  expected test answer (\<^verbatim>\<open>os.getenv\<close> gives \<^verbatim>\<open>None\<close> when the variable is unset) and
  the puzzle context.
\<close>

record process =
  TEST_MODE :: bool
  test_expected_answer :: "pystr option"
  year :: int
  day :: int

text \<open>
  What the external collaborators answer during one call. The module \<^verbatim>\<open>_utils\<close> is not
  among the sources, so its functions are parameters: the oracle for the latest puzzle,
  the two gateway calls (which may raise), the configuration lookup (name and optional
  default) and the commit helper. \<open>ruff_format\<close> is the outcome of
  \<^verbatim>\<open>subprocess.run(["ruff", "format", ...], check=True)\<close> on the scratch file (its content,
  or \<open>None\<close> when it is not there): the reformatted content, or the exception raised.
  \<open>io_fault\<close> says which file operations raise.
\<close>

record collaborators =
  get_latest_puzzle_date :: "int \<times> int"
  post_answer :: "int \<Rightarrow> int \<Rightarrow> int \<Rightarrow> pyobj \<Rightarrow> py_exception + pystr"
  scrape_day_page_for_answers :: "int \<Rightarrow> int \<Rightarrow> py_exception + (int \<rightharpoonup> pystr)"
  get_bool_config_setting :: "pystr \<Rightarrow> bool option \<Rightarrow> bool"
  git_commit_solution :: "int \<Rightarrow> int \<Rightarrow> int \<Rightarrow> py_exception option"
  ruff_format :: "pystr option \<Rightarrow> py_exception + pystr"
  io_fault :: "io_op \<Rightarrow> py_exception option"

definition emit :: "event \<Rightarrow> world \<Rightarrow> world" where
  "emit e w = w\<lparr>trace := trace w @ [e]\<rparr>"

definition logger :: "log_level \<Rightarrow> world \<Rightarrow> world" where
  "logger lvl w = emit (EvLog lvl) w"

text \<open>A raised exception ends the rest of the block; the world keeps what was done.\<close>

definition and_then ::
  "(py_exception + 'a) \<times> world \<Rightarrow> ('a \<Rightarrow> world \<Rightarrow> (py_exception + 'b) \<times> world)
    \<Rightarrow> (py_exception + 'b) \<times> world" where
  "and_then r f = (case r of (Inl e, w) \<Rightarrow> (Inl e, w) | (Inr x, w) \<Rightarrow> f x w)"

text \<open>
  Modelled from the spec: \<^verbatim>\<open>_utils.read_progress_file\<close> and
  \<^verbatim>\<open>_utils.write_progress_file\<close> (the module \<^verbatim>\<open>_utils\<close> is missing). Read returns the
  stored record, write is a full overwrite.
\<close>

definition read_progress_file :: "world \<Rightarrow> progress_data \<times> world" where
  "read_progress_file w = (progress_file w, emit EvReadProgress w)"

definition write_progress_file :: "progress_data \<Rightarrow> world \<Rightarrow> world" where
  "write_progress_file pd w = emit (EvWriteProgress pd) (w\<lparr>progress_file := pd\<rparr>)"

text \<open>
  Modelled from the spec: \<^verbatim>\<open>_utils.read_context\<close> and \<^verbatim>\<open>_utils.write_context\<close> of the
  Context Store (missing with \<^verbatim>\<open>_utils\<close>): read gives the saved pair if there is one,
  write saves the pair.
\<close>

definition read_context :: "world \<Rightarrow> (int \<times> int) option" where
  "read_context w = context_file w"

definition write_context :: "int \<Rightarrow> int \<Rightarrow> world \<Rightarrow> world" where
  "write_context y d w = emit (EvWriteContext y d) (w\<lparr>context_file := Some (y, d)\<rparr>)"

text \<open>
  \<^verbatim>\<open>Path.exists()\<close> asks the file system for the status of the path: it says whether the
  file is there, and raises when the status cannot be read for another reason than the
  file missing (\<^verbatim>\<open>PermissionError\<close> on a directory that may not be searched).
\<close>

definition path_exists :: "collaborators \<Rightarrow> path \<Rightarrow> world \<Rightarrow> py_exception + bool" where
  "path_exists c p w =
     (case io_fault c (Exists p) of
        Some e \<Rightarrow> Inl e
      | None \<Rightarrow> Inr (files w p \<noteq> None))"

text \<open>
  \<^verbatim>\<open>Path.read_text()\<close> opens the file in text mode with universal newlines: \<^verbatim>\<open>"\r\n"\<close> and a
  lone \<^verbatim>\<open>"\r"\<close> arrive as \<^verbatim>\<open>"\n"\<close>. \<open>files\<close> holds the decoded text of a file as it is on disk.
\<close>

fun universal_newlines :: "pystr \<Rightarrow> pystr" where
  "universal_newlines [] = []"
| "universal_newlines [c] = (if c = 13 then [NL] else [c])"
| "universal_newlines (c # d # cs) =
     (if c = 13 then
        (if d = 10 then NL # universal_newlines cs else NL # universal_newlines (d # cs))
      else c # universal_newlines (d # cs))"

definition read_text :: "collaborators \<Rightarrow> path \<Rightarrow> world \<Rightarrow> (py_exception + pystr) \<times> world" where
  "read_text c p w0 =
     (let w = emit (EvReadText p) w0 in
      case io_fault c (ReadText p) of
        Some e \<Rightarrow> (Inl e, w)
      | None \<Rightarrow> (case files w p of
                   None \<Rightarrow> (Inl FileNotFoundError, w)
                 | Some s \<Rightarrow> (Inr (universal_newlines s), w)))"

text \<open>
  \<^verbatim>\<open>Path.write_text\<close> and \<^verbatim>\<open>Path.mkdir(parents=True, exist_ok=True)\<close>. The text is stored as
  it is given, as on a system whose line separator is \<^verbatim>\<open>"\n"\<close>. A write that raises leaves
  the file as it was.
\<close>

definition write_text ::
  "collaborators \<Rightarrow> path \<Rightarrow> pystr \<Rightarrow> world \<Rightarrow> (py_exception + unit) \<times> world" where
  "write_text c p s w0 =
     (let w = emit (EvWriteText p s) w0 in
      case io_fault c (WriteText p) of
        Some e \<Rightarrow> (Inl e, w)
      | None \<Rightarrow> (Inr (), w\<lparr>files := (files w)(p \<mapsto> s)\<rparr>))"

definition mkdir :: "collaborators \<Rightarrow> path \<Rightarrow> world \<Rightarrow> (py_exception + unit) \<times> world" where
  "mkdir c p w0 =
     (let w = emit (EvMkdir p) w0 in
      case io_fault c (Mkdir p) of
        Some e \<Rightarrow> (Inl e, w)
      | None \<Rightarrow> (Inr (), w))"


section \<open>The Archive Engine: \<^verbatim>\<open>bind\<close> and \<^verbatim>\<open>clear\<close>\<close>

subsection \<open>The regular expression of \<^verbatim>\<open>bind\<close>\<close>

text \<open>
  \<^verbatim>\<open>\s\<close> in a \<^verbatim>\<open>str\<close> pattern, and \<^verbatim>\<open>str.rstrip()\<close>, use Python's Unicode white space:
  the code points U+0009 to U+000D, U+001C to U+0020, U+0085, U+00A0, U+1680,
  U+2000 to U+200A, U+2028, U+2029, U+202F, U+205F and U+3000.
\<close>

definition is_space :: "nat \<Rightarrow> bool" where
  "is_space c =
     ((9 \<le> c \<and> c \<le> 13) \<or> (28 \<le> c \<and> c \<le> 32) \<or> c = 0x85 \<or> c = 0xA0 \<or> c = 0x1680
      \<or> (0x2000 \<le> c \<and> c \<le> 0x200A) \<or> c = 0x2028 \<or> c = 0x2029 \<or> c = 0x202F
      \<or> c = 0x205F \<or> c = 0x3000)"

text \<open>
  A backtracking matcher in continuation style, as the \<^verbatim>\<open>re\<close> engine runs the pattern
  \<^verbatim>\<open>^\s*aoc\.bind\s*\(.*\)\s*$\<close>. A matcher takes the text at the current position
  and gives the text that follows the match, or \<open>None\<close>. \<open>star_then p k\<close> is a greedy
  \<^verbatim>\<open>x*\<close> followed by \<open>k\<close>: it takes one more character when it can, and falls back to
  \<open>k\<close> at the current position when the rest fails. \<open>lit_then l k\<close> is the literal
  \<open>l\<close> followed by \<open>k\<close>. \<open>at_eol\<close> is \<^verbatim>\<open>$\<close> under \<^verbatim>\<open>re.MULTILINE\<close>: the end of the
  string, or just before a newline. \<^verbatim>\<open>.\<close> is any character but the newline.
\<close>

fun star_then :: "(nat \<Rightarrow> bool) \<Rightarrow> (pystr \<Rightarrow> pystr option) \<Rightarrow> pystr \<Rightarrow> pystr option" where
  "star_then p k [] = k []"
| "star_then p k (c # cs) =
     (if p c then (case star_then p k cs of Some r \<Rightarrow> Some r | None \<Rightarrow> k (c # cs))
      else k (c # cs))"

definition lit_then :: "pystr \<Rightarrow> (pystr \<Rightarrow> pystr option) \<Rightarrow> pystr \<Rightarrow> pystr option" where
  "lit_then l k s = (if startswith s l then k (drop (length l) s) else None)"

definition at_eol :: "pystr \<Rightarrow> pystr option" where
  "at_eol s = (case s of [] \<Rightarrow> Some [] | c # cs \<Rightarrow> if c = NL then Some s else None)"

definition bind_pattern :: "pystr \<Rightarrow> pystr option" where
  "bind_pattern =
     star_then is_space (lit_then (ascii ''aoc.bind'')
       (star_then is_space (lit_then (ascii ''('')
         (star_then (\<lambda>c. c \<noteq> NL) (lit_then (ascii '')'')
           (star_then is_space at_eol))))))"

text \<open>What a match consumes; in particular it is not empty, which \<open>re_sub_bind\<close> needs to terminate.\<close>

lemma startswith_append: "startswith s l \<Longrightarrow> s = l @ drop (length l) s"
  by (induction s l rule: startswith.induct) auto

lemma startswith_iff: "startswith s l \<longleftrightarrow> (\<exists>b. s = l @ b)"
proof
  assume "startswith s l" then show "\<exists>b. s = l @ b" using startswith_append by blast
next
  assume "\<exists>b. s = l @ b"
  then obtain b where "s = l @ b" by blast
  then show "startswith s l" by (induction s l arbitrary: b rule: startswith.induct) auto
qed

lemma star_then_Some:
  "star_then p k s = Some r \<Longrightarrow> \<exists>a b. s = a @ b \<and> (\<forall>x\<in>set a. p x) \<and> k b = Some r"
proof (induction s)
  case Nil
  then show ?case by simp
next
  case (Cons c cs)
  show ?case
  proof (cases "p c \<and> star_then p k cs \<noteq> None")
    case True
    then obtain r' where r': "star_then p k cs = Some r'" by blast
    with True Cons.prems have "r' = r" by simp
    with r' Cons.IH obtain a b where "cs = a @ b" "\<forall>x\<in>set a. p x" "k b = Some r" by blast
    then have "c # cs = (c # a) @ b \<and> (\<forall>x\<in>set (c # a). p x) \<and> k b = Some r" using True by simp
    then show ?thesis by blast
  next
    case False
    with Cons.prems have "k (c # cs) = Some r" by (auto split: if_splits option.splits)
    then have "c # cs = [] @ (c # cs) \<and> (\<forall>x\<in>set []. p x) \<and> k (c # cs) = Some r" by simp
    then show ?thesis by blast
  qed
qed

lemma lit_then_Some: "lit_then l k s = Some r \<Longrightarrow> \<exists>b. s = l @ b \<and> k b = Some r"
  unfolding lit_then_def using startswith_append by (fastforce split: if_splits)

lemma at_eol_Some: "at_eol s = Some r \<Longrightarrow> r = s \<and> (r = [] \<or> hd r = NL)"
  by (auto simp: at_eol_def split: list.splits if_splits)

lemma bind_pattern_Some:
  assumes "bind_pattern s = Some r"
  shows "\<exists>ws1 ws2 args ws3. s = ws1 @ ascii ''aoc.bind'' @ ws2 @ ascii ''('' @ args @ ascii '')'' @ ws3 @ r
     \<and> (\<forall>x\<in>set ws1. is_space x) \<and> (\<forall>x\<in>set ws2. is_space x) \<and> (\<forall>x\<in>set args. x \<noteq> NL) \<and> (\<forall>x\<in>set ws3. is_space x)
     \<and> (r = [] \<or> hd r = NL)"
proof -
  from assms obtain ws1 b1 where 1: "s = ws1 @ b1" "\<forall>x\<in>set ws1. is_space x"
    and k1: "lit_then (ascii ''aoc.bind'') (star_then is_space (lit_then (ascii ''('')
         (star_then (\<lambda>c. c \<noteq> NL) (lit_then (ascii '')'') (star_then is_space at_eol))))) b1 = Some r"
    unfolding bind_pattern_def using star_then_Some by blast
  from lit_then_Some[OF k1] obtain b2 where 2: "b1 = ascii ''aoc.bind'' @ b2"
    and k2: "star_then is_space (lit_then (ascii ''('')
         (star_then (\<lambda>c. c \<noteq> NL) (lit_then (ascii '')'') (star_then is_space at_eol)))) b2 = Some r"
    by blast
  from star_then_Some[OF k2] obtain ws2 b3 where 3: "b2 = ws2 @ b3" "\<forall>x\<in>set ws2. is_space x"
    and k3: "lit_then (ascii ''('')
         (star_then (\<lambda>c. c \<noteq> NL) (lit_then (ascii '')'') (star_then is_space at_eol))) b3 = Some r"
    by blast
  from lit_then_Some[OF k3] obtain b4 where 4: "b3 = ascii ''('' @ b4"
    and k4: "star_then (\<lambda>c. c \<noteq> NL) (lit_then (ascii '')'') (star_then is_space at_eol)) b4 = Some r"
    by blast
  from star_then_Some[OF k4] obtain args b5 where 5: "b4 = args @ b5" "\<forall>x\<in>set args. x \<noteq> NL"
    and k5: "lit_then (ascii '')'') (star_then is_space at_eol) b5 = Some r"
    by blast
  from lit_then_Some[OF k5] obtain b6 where 6: "b5 = ascii '')'' @ b6"
    and k6: "star_then is_space at_eol b6 = Some r"
    by blast
  from star_then_Some[OF k6] obtain ws3 b7 where 7: "b6 = ws3 @ b7" "\<forall>x\<in>set ws3. is_space x"
    and k7: "at_eol b7 = Some r"
    by blast
  from at_eol_Some[OF k7] have 8: "b7 = r" "r = [] \<or> hd r = NL" by auto
  have "s = ws1 @ ascii ''aoc.bind'' @ ws2 @ ascii ''('' @ args @ ascii '')'' @ ws3 @ r"
    using 1 2 3 4 5 6 7 8 by simp
  then show ?thesis using 1 3 5 7 8 by blast
qed

lemma bind_pattern_shorter: "bind_pattern s = Some r \<Longrightarrow> length r < length s"
  using bind_pattern_Some[of s r] by (auto simp: ascii_def)

text \<open>
  \<^verbatim>\<open>re.sub(bind_pattern, "", content)\<close>: scan from the left; at a position where \<^verbatim>\<open>^\<close>
  holds (the start of the string, or just after a newline) and the pattern matches, drop
  the match and go on behind it; otherwise keep the character and move on by one. \<open>prev\<close>
  is the character before the current position. A match is never empty, so the rules
  of \<^verbatim>\<open>re.sub\<close> for empty matches do not come into play.
\<close>

function re_sub_bind :: "nat option \<Rightarrow> pystr \<Rightarrow> pystr" where
  "re_sub_bind prev s =
     (case (if prev = None \<or> prev = Some NL then bind_pattern s else None) of
        Some r \<Rightarrow> re_sub_bind (Some (last (take (length s - length r) s))) r
      | None \<Rightarrow> (case s of [] \<Rightarrow> [] | c # cs \<Rightarrow> c # re_sub_bind (Some c) cs))"
  by pat_completeness auto
termination
  by (relation "measure (\<lambda>(prev, s). length s)") (auto split: if_splits dest: bind_pattern_shorter)

declare re_sub_bind.simps [simp del]

definition rstrip :: "pystr \<Rightarrow> pystr" where
  "rstrip s = rev (dropWhile is_space (rev s))"


subsection \<open>\<^verbatim>\<open>clear\<close> and \<^verbatim>\<open>bind\<close>\<close>

definition dest_dir :: "process \<Rightarrow> path" where
  "dest_dir proc = SOLUTIONS_DIR [str_int (year proc), fmt_02d (day proc)]"

definition dest_path :: "process \<Rightarrow> int \<Rightarrow> path" where
  "dest_path proc part =
     SOLUTIONS_DIR [str_int (year proc), fmt_02d (day proc),
                    ascii ''part_'' @ str_int part @ ascii ''.py'']"

definition clear :: "collaborators \<Rightarrow> world \<Rightarrow> (py_exception + unit) \<times> world" where
  "clear c w =
     (case path_exists c NOTEPAD_PATH w of
        Inl e \<Rightarrow> (Inl e, w)
      | Inr notepad_exists \<Rightarrow>
          if notepad_exists
          then and_then (write_text c NOTEPAD_PATH [] w) (\<lambda>u w. (Inr (), logger INFO w))
          else (Inr (), w))"

text \<open>
  The formatter step (lines 197 to 203) with its handler: \<^verbatim>\<open>CalledProcessError\<close> and
  \<^verbatim>\<open>FileNotFoundError\<close> are caught and logged, any other exception of
  \<^verbatim>\<open>subprocess.run\<close> leaves \<^verbatim>\<open>bind\<close>. The formatter rewrites the scratch file in place.
\<close>

definition auto_format :: "collaborators \<Rightarrow> world \<Rightarrow> (py_exception + unit) \<times> world" where
  "auto_format c w0 =
     (if get_bool_config_setting c (ascii ''auto_format_on_bind'') (Some True) then
        (let w = emit EvRuffFormat (logger INFO w0) in
         case ruff_format c (files w NOTEPAD_PATH) of
           Inr formatted \<Rightarrow> (Inr (), w\<lparr>files := (files w)(NOTEPAD_PATH \<mapsto> formatted)\<rparr>)
         | Inl e \<Rightarrow>
             if e = CalledProcessError \<or> e = FileNotFoundError
             then (Inr (), logger WARNING (logger ERROR w))
             else (Inl e, w))
      else (Inr (), w0))"

text \<open>The body of the \<^verbatim>\<open>try\<close> block of \<^verbatim>\<open>bind\<close> (lines 213 to 226).\<close>

definition bind_try ::
  "process \<Rightarrow> collaborators \<Rightarrow> int \<Rightarrow> world \<Rightarrow> (py_exception + unit) \<times> world" where
  "bind_try proc c part w0 =
     and_then (read_text c NOTEPAD_PATH w0) (\<lambda>content w1.
       let cleaned_content = rstrip (re_sub_bind None content) in
       and_then (mkdir c (dest_dir proc) w1) (\<lambda>u w2.
         and_then (write_text c (dest_path proc part) cleaned_content w2) (\<lambda>u w3.
           and_then
             (if get_bool_config_setting c (ascii ''auto_commit_on_bind'') None
              then (case git_commit_solution c (year proc) (day proc) part of
                      Some e \<Rightarrow> (Inl e, emit (EvGitCommit (year proc) (day proc) part) (logger INFO w3))
                    | None \<Rightarrow> (Inr (), emit (EvGitCommit (year proc) (day proc) part) (logger INFO w3)))
              else (Inr (), logger INFO w3))
             (\<lambda>u w4.
                if get_bool_config_setting c (ascii ''auto_clear_on_bind'') None
                then clear c (logger INFO w4)
                else (Inr (), w4)))))"

definition bind ::
  "process \<Rightarrow> collaborators \<Rightarrow> int \<Rightarrow> bool \<Rightarrow> world \<Rightarrow> (py_exception + unit) \<times> world" where
  "bind proc c part overwrite w0 =
     (let w1 = emit (EvCallBind part overwrite) w0 in
      if part \<noteq> 1 \<and> part \<noteq> 2 then (Inr (), logger ERROR w1)
      else
        let w2 = logger INFO w1 in
        case path_exists c NOTEPAD_PATH w2 of
          Inl e \<Rightarrow> (Inl e, w2)
        | Inr source_exists \<Rightarrow>
            if \<not> source_exists then (Inr (), logger ERROR w2)
            else
              and_then (auto_format c w2)
                (\<lambda>u w3.
                   case path_exists c (dest_path proc part) w3 of
                     Inl e \<Rightarrow> (Inl e, w3)
                   | Inr dest_exists \<Rightarrow>
                       if dest_exists \<and> \<not> overwrite
                       then (Inr (), logger WARNING w3)
                       else (case bind_try proc c part w3 of
                               (Inl e, w4) \<Rightarrow> (Inr (), logger ERROR w4)
                             | (Inr u, w4) \<Rightarrow> (Inr (), w4))))"


section \<open>The Submission Engine: \<^verbatim>\<open>submit\<close>\<close>

definition quoted :: "pystr \<Rightarrow> pystr" where
  "quoted s = 39 # s @ [39]"

definition RIGHT_ANSWER :: pystr where
  "RIGHT_ANSWER = ascii ''That's the right answer!''"

definition WRONG_LEVEL :: pystr where
  "WRONG_LEVEL = ascii ''You don't seem to be solving the right level''"

definition PASSED :: pystr where
  "PASSED = CHECK_MARK @ ascii '' PASSED''"

definition FAILED :: "pystr \<Rightarrow> pystr option \<Rightarrow> pystr" where
  "FAILED str_answer expected =
     CROSS_MARK @ ascii '' FAILED: Got '' @ quoted str_answer
       @ ascii '', but expected '' @ quoted (str_opt expected)"

definition err_msg :: pystr where
  "err_msg = ascii ''The 'part' argument for submit() must be 1 or 2.''"

definition msg_correct :: "pystr \<Rightarrow> pystr" where
  "msg_correct str_answer =
     CHECK_MARK @ ascii '' Your answer '' @ quoted str_answer @ ascii '' is correct!''"

definition msg_incorrect :: "pystr \<Rightarrow> pystr \<Rightarrow> pystr" where
  "msg_incorrect str_answer known_correct_answer =
     CROSS_MARK @ ascii '' Your answer '' @ quoted str_answer
       @ ascii '' is incorrect. The correct answer was '' @ quoted known_correct_answer
       @ ascii ''.''"

definition msg_unverified :: pystr where
  "msg_unverified =
     WARNING_SIGN @ ascii '' Puzzle already completed''
       @ ascii '', but could not verify answer against AoC website.''"

definition msg_already_completed :: "int \<Rightarrow> pystr" where
  "msg_already_completed part =
     CHECK_MARK @ ascii '' Part '' @ str_int part
       @ ascii '' has already been completed. The server did not accept the new submission.''"

text \<open>
  \<open>year_entry pd y\<close> is \<^verbatim>\<open>progress_data["progress"][year_str]\<close>; \<^verbatim>\<open>submit\<close> reads it only
  after it has put an empty dictionary there when the key was missing. \<open>stars_for\<close> is the
  recorded star count of a day, \<^verbatim>\<open>.get(day_str, 0)\<close> on that entry.
\<close>

definition year_entry :: "progress_data \<Rightarrow> pystr \<Rightarrow> (pystr \<rightharpoonup> int)" where
  "year_entry pd year_str = (case progress pd year_str of None \<Rightarrow> Map.empty | Some days \<Rightarrow> days)"

definition stars_for :: "progress_data \<Rightarrow> pystr \<Rightarrow> pystr \<Rightarrow> int" where
  "stars_for pd year_str day_str =
     (case year_entry pd year_str day_str of None \<Rightarrow> 0 | Some n \<Rightarrow> n)"

definition set_stars :: "progress_data \<Rightarrow> pystr \<Rightarrow> pystr \<Rightarrow> int \<Rightarrow> progress_data" where
  "set_stars pd year_str day_str n =
     pd\<lparr>progress := (progress pd)(year_str \<mapsto> (year_entry pd year_str)(day_str \<mapsto> n))\<rparr>"

definition submit ::
  "process \<Rightarrow> collaborators \<Rightarrow> pyobj \<Rightarrow> int \<Rightarrow> world \<Rightarrow> (py_exception + pystr) \<times> world" where
  "submit proc c answer part w0 =
     (if TEST_MODE proc then
        (let w1 = logger INFO w0;
             str_answer = str answer;
             str_expected = str_opt (test_expected_answer proc)
         in if str_answer = str_expected then (Inr PASSED, w1)
            else (Inr (FAILED str_answer (test_expected_answer proc)), w1))
      else if part \<noteq> 1 \<and> part \<noteq> 2 then (Inr err_msg, logger ERROR w0)
      else
        (let (pd0, w1) = read_progress_file w0;
             year_str = str_int (year proc);
             day_str = str_int (day proc);
             progress_data =
               (if progress pd0 year_str = None
                then pd0\<lparr>progress := (progress pd0)(year_str \<mapsto> Map.empty)\<rparr>
                else pd0);
             current_stars =
               (case year_entry progress_data year_str day_str of None \<Rightarrow> 0 | Some n \<Rightarrow> n);
             str_answer = str answer
         in
         if current_stars \<ge> part then
           (let w2 = emit (EvScrape (year proc) (day proc)) (logger INFO w1) in
            case scrape_day_page_for_answers c (year proc) (day proc) of
              Inl e \<Rightarrow> (Inl e, w2)
            | Inr correct_answers \<Rightarrow>
                (case correct_answers part of
                   Some known_correct_answer \<Rightarrow>
                     if str_answer = known_correct_answer
                     then (Inr (msg_correct str_answer), logger INFO w2)
                     else (Inr (msg_incorrect str_answer known_correct_answer),
                           logger WARNING w2)
                 | None \<Rightarrow> (Inr msg_unverified, logger WARNING w2)))
         else
           (let w2 = emit (EvPostAnswer (year proc) (day proc) part answer) w1 in
            case post_answer c (year proc) (day proc) part answer of
              Inl e \<Rightarrow> (Inl e, w2)
            | Inr response_text \<Rightarrow>
                if py_in RIGHT_ANSWER response_text then
                  (let new_stars = max current_stars part;
                       w3 = write_progress_file
                              (set_stars progress_data year_str day_str new_stars)
                              (logger INFO w2)
                   in and_then
                        (if get_bool_config_setting c (ascii ''auto_bind'') (Some True)
                         then bind proc c part False (logger INFO w3)
                         else (Inr (), w3))
                        (\<lambda>u w4. (Inr (CHECK_MARK @ ascii '' '' @ response_text), w4)))
                else if py_in WRONG_LEVEL response_text then
                  (let w3 = logger WARNING w2;
                       new_stars = max current_stars part
                   in if year_entry progress_data year_str day_str \<noteq> Some new_stars
                      then (Inr (msg_already_completed part),
                            write_progress_file
                              (set_stars progress_data year_str day_str new_stars) w3)
                      else (Inr (msg_already_completed part), w3))
                else (Inr (CROSS_MARK @ ascii '' '' @ response_text), logger WARNING w2))))"

text \<open>
  A sequence of \<^verbatim>\<open>submit\<close> calls, each with its own process values (the calls may belong
  to different runs of the tool), collaborators' answers, answer and part. A call that
  raises ends its run; the next call finds the world that call left.
\<close>

fun submits ::
  "(process \<times> collaborators \<times> pyobj \<times> int) list \<Rightarrow> world \<Rightarrow> world" where
  "submits [] w = w"
| "submits ((proc, c, answer, part) # calls) w =
     submits calls (snd (submit proc c answer part w))"

section \<open>Context: determination at import, and \<^verbatim>\<open>context set\<close>\<close>

text \<open>
  The module-level code of lines 33 to 39. A pair of two integers is a non-empty tuple,
  so \<^verbatim>\<open>if context:\<close> holds exactly when \<^verbatim>\<open>read_context\<close> gave a pair.
\<close>

definition context_determination :: "collaborators \<Rightarrow> world \<Rightarrow> (int \<times> int) \<times> world" where
  "context_determination c w =
     (case read_context w of
        Some (y, d) \<Rightarrow> ((y, d), logger INFO w)
      | None \<Rightarrow> (get_latest_puzzle_date c, logger INFO w))"

definition context_set ::
  "collaborators \<Rightarrow> int \<Rightarrow> int \<Rightarrow> world \<Rightarrow> (py_exception + unit) \<times> world" where
  "context_set c y d w =
     (let (latest_year, latest_day) = get_latest_puzzle_date c in
      if \<not> (2015 \<le> y \<and> y \<le> latest_year) then
        (Inl Abort,
         emit (EvEcho (ascii ''Error: Year must be between 2015 and '' @ str_int latest_year
                        @ ascii ''.'')) w)
      else if \<not> (1 \<le> d \<and> d \<le> 25) then
        (Inl Abort, emit (EvEcho (ascii ''Error: Day must be between 1 and 25.'')) w)
      else if y = latest_year \<and> d > latest_day then
        (Inl Abort,
         emit (EvEcho (ascii ''The latest available puzzle is '' @ str_int latest_year
                        @ ascii ''-'' @ fmt_02d latest_day @ ascii ''.''))
           (emit (EvEcho (ascii ''Error: Puzzle for '' @ str_int y @ ascii ''-'' @ fmt_02d d
                           @ ascii '' is not yet available.'')) w))
      else
        (Inr (),
         emit (EvEcho (CHECK_MARK @ ascii '' Context set to Year '' @ str_int y
                        @ ascii '', Day '' @ str_int d @ ascii ''.''))
           (write_context y d w)))"


section \<open>Vocabulary of the statements\<close>

text \<open>
  The lines of a text, as \<^verbatim>\<open>^\<close> and \<^verbatim>\<open>$\<close> see them under \<^verbatim>\<open>re.MULTILINE\<close>: the pieces between
  newline characters.
\<close>

fun split_nl :: "pystr \<Rightarrow> pystr list" where
  "split_nl [] = [[]]"
| "split_nl (c # cs) =
     (if c = NL then [] # split_nl cs
      else (case split_nl cs of [] \<Rightarrow> [[c]] | l # ls \<Rightarrow> (c # l) # ls))"

text \<open>
  A line that is purely a call to \<^verbatim>\<open>aoc.bind(...)\<close>: optional white space, \<^verbatim>\<open>aoc.bind\<close>, optional
  white space, an opening parenthesis, any text, a closing parenthesis, optional white
  space, and no newline.
\<close>

definition is_bind_line :: "pystr \<Rightarrow> bool" where
  "is_bind_line l \<longleftrightarrow>
     NL \<notin> set l \<and>
     (\<exists>ws1 ws2 args ws3.
        l = ws1 @ ascii ''aoc.bind'' @ ws2 @ ascii ''('' @ args @ ascii '')'' @ ws3
        \<and> (\<forall>x\<in>set ws1. is_space x) \<and> (\<forall>x\<in>set ws2. is_space x) \<and> (\<forall>x\<in>set ws3. is_space x))"

text \<open>
  Where \<^verbatim>\<open>^\<close> holds: no character before the position, or a newline before it.
\<close>

definition line_start :: "nat option \<Rightarrow> bool" where
  "line_start prev \<longleftrightarrow> prev = None \<or> prev = Some NL"

text \<open>
  \<open>formatter_escapes c w\<close> is the exception
  that leaves \<^verbatim>\<open>bind\<close> from the formatter step, if there is one: the scratch file exists,
  formatting is enabled, and \<^verbatim>\<open>subprocess.run\<close> raises something other than the two handled
  exceptions.
\<close>

definition formatter_escapes :: "collaborators \<Rightarrow> world \<Rightarrow> py_exception option" where
  "formatter_escapes c w =
     (case files w NOTEPAD_PATH of
        None \<Rightarrow> None
      | Some scratch \<Rightarrow>
          if get_bool_config_setting c (ascii ''auto_format_on_bind'') (Some True)
          then (case ruff_format c (Some scratch) of
                  Inr formatted \<Rightarrow> None
                | Inl e \<Rightarrow> if e = CalledProcessError \<or> e = FileNotFoundError then None else Some e)
          else None)"

text \<open>
  The content of the scratch file after the formatter step.
\<close>

definition formatted_scratch :: "collaborators \<Rightarrow> pystr \<Rightarrow> pystr" where
  "formatted_scratch c scratch =
     (if get_bool_config_setting c (ascii ''auto_format_on_bind'') (Some True)
      then (case ruff_format c (Some scratch) of Inr formatted \<Rightarrow> formatted | Inl e \<Rightarrow> scratch)
      else scratch)"

text \<open>
  \<open>bind_escapes proc c part w\<close> is the exception that leaves \<^verbatim>\<open>bind\<close>, for a valid part, if
  there is one. Three steps stand outside the \<^verbatim>\<open>try\<close> block and have no handler of their
  own, or one for two exceptions only: the test whether the scratch file exists, the
  formatter step, and the test whether the destination exists.
\<close>

definition bind_escapes :: "process \<Rightarrow> collaborators \<Rightarrow> int \<Rightarrow> world \<Rightarrow> py_exception option" where
  "bind_escapes proc c part w =
     (case io_fault c (Exists NOTEPAD_PATH) of
        Some e \<Rightarrow> Some e
      | None \<Rightarrow>
          (case files w NOTEPAD_PATH of
             None \<Rightarrow> None
           | Some scratch \<Rightarrow>
               (case formatter_escapes c w of
                  Some e \<Rightarrow> Some e
                | None \<Rightarrow> io_fault c (Exists (dest_path proc part)))))"

text \<open>
  Some step of the \<^verbatim>\<open>try\<close> block raises: reading the scratch file, creating the
  directory, writing the destination, committing (when enabled) or clearing the scratch
  file (when enabled; \<^verbatim>\<open>clear\<close> tests whether the file exists and writes it).
\<close>

definition archive_fault :: "process \<Rightarrow> collaborators \<Rightarrow> int \<Rightarrow> bool" where
  "archive_fault proc c part \<longleftrightarrow>
     io_fault c (ReadText NOTEPAD_PATH) \<noteq> None
     \<or> io_fault c (Mkdir (dest_dir proc)) \<noteq> None
     \<or> io_fault c (WriteText (dest_path proc part)) \<noteq> None
     \<or> (get_bool_config_setting c (ascii ''auto_commit_on_bind'') None
         \<and> git_commit_solution c (year proc) (day proc) part \<noteq> None)
     \<or> (get_bool_config_setting c (ascii ''auto_clear_on_bind'') None
         \<and> (io_fault c (Exists NOTEPAD_PATH) \<noteq> None
            \<or> io_fault c (WriteText NOTEPAD_PATH) \<noteq> None))"

text \<open>
  Events that touch no file: logger records, the formatter run and the entry into
  \<^verbatim>\<open>bind\<close>.
\<close>

fun silent :: "event \<Rightarrow> bool" where
  "silent (EvLog l) = True"
| "silent EvRuffFormat = True"
| "silent (EvCallBind p ov) = True"
| "silent e = False"

text \<open>
  An event is quiet when it is neither a write
  of the Progress Store nor a post of an answer; a step keeps the stores when it leaves
  the Progress Store and the Context Store as they were and adds quiet events only.
\<close>

fun quiet :: "event \<Rightarrow> bool" where
  "quiet (EvWriteProgress pd) = False"
| "quiet (EvPostAnswer y d p a) = False"
| "quiet e = True"

definition keeps :: "world \<Rightarrow> (py_exception + 'a) \<times> world \<Rightarrow> bool" where
  "keeps w r \<longleftrightarrow>
     progress_file (snd r) = progress_file w \<and> context_file (snd r) = context_file w
     \<and> (\<exists>evs. trace (snd r) = trace w @ evs \<and> list_all quiet evs)"


section \<open>Example values\<close>

text \<open>
  Concrete collaborators, a concrete empty world and concrete process values, at which
  the theorems below are instantiated.
\<close>

definition c0 :: collaborators where
  "c0 = \<lparr>get_latest_puzzle_date = (2024, 5),
         post_answer = (\<lambda>y d p a. Inr (ascii ''That's not the right answer.'')),
         scrape_day_page_for_answers = (\<lambda>y d. Inr [1 \<mapsto> ascii ''42'']),
         get_bool_config_setting = (\<lambda>name default. case default of None \<Rightarrow> False | Some b \<Rightarrow> b),
         git_commit_solution = (\<lambda>y d p. None),
         ruff_format = (\<lambda>s. case s of None \<Rightarrow> Inr [] | Some t \<Rightarrow> Inr t),
         io_fault = (\<lambda>op. None)\<rparr>"

definition w0 :: world where
  "w0 = \<lparr>progress_file = \<lparr>progress = Map.empty\<rparr>, context_file = None,
         files = Map.empty, trace = []\<rparr>"

definition test_proc :: "pystr option \<Rightarrow> process" where
  "test_proc expected = \<lparr>TEST_MODE = True, test_expected_answer = expected, year = 2024, day = 3\<rparr>"

definition live_proc :: process where
  "live_proc = \<lparr>TEST_MODE = False, test_expected_answer = None, year = 2024, day = 3\<rparr>"

text \<open>
  A world where part 1 of day 3 of 2024 is recorded as solved, a gateway response that
  contains both known phrases, and collaborators that give it, or the wrong-level
  phrase alone.
\<close>

definition w_solved :: world where
  "w_solved = w0\<lparr>progress_file := \<lparr>progress = [ascii ''2024'' \<mapsto> [ascii ''3'' \<mapsto> 1]]\<rparr>\<rparr>"

definition both_phrases :: pystr where
  "both_phrases = RIGHT_ANSWER @ ascii '' '' @ WRONG_LEVEL"

definition c_both :: collaborators where
  "c_both = c0\<lparr>post_answer := (\<lambda>y d p a. Inr both_phrases)\<rparr>"

definition c_level :: collaborators where
  "c_level = c0\<lparr>post_answer := (\<lambda>y d p a. Inr (WRONG_LEVEL @ ascii ''.''))\<rparr>"

text \<open>
  A scratch file with one line of code and one call of \<^verbatim>\<open>aoc.bind\<close>; worlds with that
  scratch file, without and with an archived solution for part 1; collaborators whose
  gateway accepts the answer, whose formatter raises \<^verbatim>\<open>PermissionError\<close>, whose write of the
  destination fails, and whose test for the scratch file raises \<^verbatim>\<open>PermissionError\<close>.
\<close>

definition scratch0 :: pystr where
  "scratch0 = ascii ''x = 1'' @ [NL] @ ascii ''aoc.bind(1)'' @ [NL]"

definition w_notepad :: world where
  "w_notepad = w0\<lparr>files := [NOTEPAD_PATH \<mapsto> scratch0]\<rparr>"

definition w_archived :: world where
  "w_archived = w0\<lparr>files := [NOTEPAD_PATH \<mapsto> scratch0, dest_path live_proc 1 \<mapsto> ascii ''old'']\<rparr>"

definition c_right :: collaborators where
  "c_right = c0\<lparr>post_answer := (\<lambda>y d p a. Inr RIGHT_ANSWER)\<rparr>"

definition c_perm :: collaborators where
  "c_perm = c_right\<lparr>ruff_format := (\<lambda>s. Inl PermissionError)\<rparr>"

definition c_fault :: collaborators where
  "c_fault = c_right\<lparr>io_fault := (\<lambda>op. if op = WriteText (dest_path live_proc 1)
                                          then Some (OtherException (ascii ''disk full'')) else None)\<rparr>"

definition c_denied :: collaborators where
  "c_denied = c_right\<lparr>io_fault := (\<lambda>op. if op = Exists NOTEPAD_PATH
                                           then Some PermissionError else None)\<rparr>"


section \<open>Auxiliary lemmas\<close>

lemma py_in_iff: "py_in n s \<longleftrightarrow> (\<exists>a b. s = a @ n @ b)"
proof (induction s)
  case Nil
  then show ?case by auto
next
  case (Cons c cs)
  show ?case
  proof
    assume "py_in n (c # cs)"
    then consider "startswith (c # cs) n" | "py_in n cs" by auto
    then show "\<exists>a b. c # cs = a @ n @ b"
    proof cases
      case 1
      then obtain b where "c # cs = n @ b" using startswith_iff by blast
      then have "c # cs = [] @ n @ b" by simp
      then show ?thesis by blast
    next
      case 2
      with Cons.IH obtain a b where "cs = a @ n @ b" by blast
      then have "c # cs = (c # a) @ n @ b" by simp
      then show ?thesis by blast
    qed
  next
    assume "\<exists>a b. c # cs = a @ n @ b"
    then obtain a b where ab: "c # cs = a @ n @ b" by blast
    show "py_in n (c # cs)"
    proof (cases a)
      case Nil
      with ab have "startswith (c # cs) n" using startswith_iff by fastforce
      then show ?thesis by simp
    next
      case (Cons x xs)
      with ab have "cs = xs @ n @ b" by simp
      with Cons.IH have "py_in n cs" by blast
      then show ?thesis by simp
    qed
  qed
qed


lemma submit_in_test_mode:
  "TEST_MODE proc \<Longrightarrow>
     submit proc c answer part w =
       (Inr (if str answer = str_opt (test_expected_answer proc) then PASSED
             else FAILED (str answer) (test_expected_answer proc)),
        w\<lparr>trace := trace w @ [EvLog INFO]\<rparr>)"
  by (simp add: submit_def Let_def logger_def emit_def)

lemma FAILED_neq_PASSED: "FAILED s e \<noteq> PASSED"
  by (simp add: FAILED_def PASSED_def CROSS_MARK_def CHECK_MARK_def)


lemma year_entry_ensure:
  "year_entry (if progress pd ys = None then pd\<lparr>progress := (progress pd)(ys \<mapsto> Map.empty)\<rparr> else pd) ys
     = year_entry pd ys"
  by (simp add: year_entry_def split: option.splits)

lemma set_stars_ensure:
  "set_stars (if progress pd ys = None then pd\<lparr>progress := (progress pd)(ys \<mapsto> Map.empty)\<rparr> else pd) ys ds n
     = set_stars pd ys ds n"
  by (simp add: set_stars_def year_entry_def split: option.splits)

lemma stars_for_set_stars:
  "stars_for (set_stars pd ys ds n) ys' ds' = (if ys' = ys \<and> ds' = ds then n else stars_for pd ys' ds')"
  by (simp add: stars_for_def set_stars_def year_entry_def split: option.splits)

lemma stars_for_ensure:
  "(case year_entry (if progress pd ys = None then pd\<lparr>progress := (progress pd)(ys \<mapsto> Map.empty)\<rparr> else pd) ys ds
      of None \<Rightarrow> 0 | Some n \<Rightarrow> n) = stars_for pd ys ds"
  by (simp add: stars_for_def year_entry_ensure)

lemma year_entry_neq_Some:
  "stars_for pd ys ds < n \<Longrightarrow> year_entry pd ys ds \<noteq> Some n"
  by (auto simp: stars_for_def)

lemma submit_verify:
  assumes "\<not> TEST_MODE proc" and "part = 1 \<or> part = 2"
    and "part \<le> stars_for (progress_file w) (str_int (year proc)) (str_int (day proc))"
  shows "submit proc c answer part w =
     (case scrape_day_page_for_answers c (year proc) (day proc) of
        Inl e \<Rightarrow> (Inl e, w\<lparr>trace := trace w @ [EvReadProgress, EvLog INFO, EvScrape (year proc) (day proc)]\<rparr>)
      | Inr correct_answers \<Rightarrow>
          (case correct_answers part of
             Some known \<Rightarrow>
               if str answer = known
               then (Inr (msg_correct (str answer)),
                     w\<lparr>trace := trace w @ [EvReadProgress, EvLog INFO, EvScrape (year proc) (day proc), EvLog INFO]\<rparr>)
               else (Inr (msg_incorrect (str answer) known),
                     w\<lparr>trace := trace w @ [EvReadProgress, EvLog INFO, EvScrape (year proc) (day proc), EvLog WARNING]\<rparr>)
           | None \<Rightarrow> (Inr msg_unverified,
                     w\<lparr>trace := trace w @ [EvReadProgress, EvLog INFO, EvScrape (year proc) (day proc), EvLog WARNING]\<rparr>)))"
proof -
  have np: "(part \<noteq> 1 \<and> part \<noteq> 2) = False" using assms(2) by auto
  have tm: "TEST_MODE proc = False" using assms(1) by simp
  have le: "(part \<le> stars_for (progress_file w) (str_int (year proc)) (str_int (day proc))) = True"
    using assms(3) by simp
  show ?thesis
    unfolding submit_def read_progress_file_def Let_def prod.case stars_for_ensure np tm le if_False if_True
    by (simp add: emit_def logger_def split: sum.splits option.splits)
qed

lemma submit_post:
  assumes "\<not> TEST_MODE proc" and "part = 1 \<or> part = 2"
    and "stars_for (progress_file w) (str_int (year proc)) (str_int (day proc)) < part"
  shows "submit proc c answer part w =
     (let ys = str_int (year proc); ds = str_int (day proc);
          w2 = w\<lparr>trace := trace w @ [EvReadProgress, EvPostAnswer (year proc) (day proc) part answer]\<rparr>;
          new_pd = set_stars (progress_file w) ys ds part in
      case post_answer c (year proc) (day proc) part answer of
        Inl e \<Rightarrow> (Inl e, w2)
      | Inr response_text \<Rightarrow>
          if py_in RIGHT_ANSWER response_text then
            and_then
              (if get_bool_config_setting c (ascii ''auto_bind'') (Some True)
               then bind proc c part False
                      (w\<lparr>progress_file := new_pd,
                         trace := trace w @ [EvReadProgress, EvPostAnswer (year proc) (day proc) part answer,
                                             EvLog INFO, EvWriteProgress new_pd, EvLog INFO]\<rparr>)
               else (Inr (),
                      w\<lparr>progress_file := new_pd,
                        trace := trace w @ [EvReadProgress, EvPostAnswer (year proc) (day proc) part answer,
                                            EvLog INFO, EvWriteProgress new_pd]\<rparr>))
              (\<lambda>u w4. (Inr (CHECK_MARK @ ascii '' '' @ response_text), w4))
          else if py_in WRONG_LEVEL response_text then
            (Inr (msg_already_completed part),
             w\<lparr>progress_file := new_pd,
               trace := trace w @ [EvReadProgress, EvPostAnswer (year proc) (day proc) part answer,
                                   EvLog WARNING, EvWriteProgress new_pd]\<rparr>)
          else (Inr (CROSS_MARK @ ascii '' '' @ response_text),
                w\<lparr>trace := trace w @ [EvReadProgress, EvPostAnswer (year proc) (day proc) part answer,
                                      EvLog WARNING]\<rparr>))"
proof -
  have np: "(part \<noteq> 1 \<and> part \<noteq> 2) = False" using assms(2) by auto
  have tm: "TEST_MODE proc = False" using assms(1) by simp
  have le: "(part \<le> stars_for (progress_file w) (str_int (year proc)) (str_int (day proc))) = False"
    using assms(3) by simp
  have mx: "max (stars_for (progress_file w) (str_int (year proc)) (str_int (day proc))) part = part"
    using assms(3) by simp
  have ne: "(year_entry (progress_file w) (str_int (year proc)) (str_int (day proc)) \<noteq> Some part) = True"
    using year_entry_neq_Some [OF assms(3)] by simp
  show ?thesis
    unfolding submit_def read_progress_file_def Let_def prod.case year_entry_ensure set_stars_ensure
    unfolding stars_for_def [symmetric]
    unfolding np tm le mx ne if_False if_True
    by (simp add: emit_def logger_def write_progress_file_def split: sum.splits)
qed

lemma keeps_refl: "keeps w (x, w)"
  by (simp add: keeps_def)

lemma keeps_emit: "quiet e \<Longrightarrow> keeps w (x, w') \<Longrightarrow> keeps w (x', emit e w')"
  by (auto simp: keeps_def emit_def)

lemma keeps_logger: "keeps w (x, w') \<Longrightarrow> keeps w (x', logger l w')"
  unfolding logger_def by (rule keeps_emit) auto

lemma keeps_result: "keeps w (x, w') \<Longrightarrow> keeps w (x', w')"
  by (simp add: keeps_def)

lemma keeps_and_then:
  assumes "keeps w r" and "\<And>x w'. keeps w (Inr x, w') \<Longrightarrow> keeps w (f x w')"
  shows "keeps w (and_then r f)"
proof (cases r)
  case (Pair a w')
  show ?thesis
  proof (cases a)
    case (Inl e)
    with Pair assms(1) show ?thesis by (simp add: and_then_def keeps_def)
  next
    case (Inr x)
    with Pair assms show ?thesis by (simp add: and_then_def)
  qed
qed

lemma keeps_files_update: "keeps w (x, w') \<Longrightarrow> keeps w (x', w'\<lparr>files := f\<rparr>)"
  by (simp add: keeps_def)

lemma keeps_read_text: "keeps w (x, w') \<Longrightarrow> keeps w (read_text c p w')"
  unfolding read_text_def Let_def
  by (auto split: option.splits intro!: keeps_emit elim: keeps_result)

lemma keeps_write_text: "keeps w (x, w') \<Longrightarrow> keeps w (write_text c p s w')"
  unfolding write_text_def Let_def
  by (auto split: option.splits intro!: keeps_emit keeps_files_update elim: keeps_result)

lemma keeps_mkdir: "keeps w (x, w') \<Longrightarrow> keeps w (mkdir c p w')"
  unfolding mkdir_def Let_def
  by (auto split: option.splits intro!: keeps_emit elim: keeps_result)

lemma keeps_clear: "keeps w (x, w') \<Longrightarrow> keeps w (clear c w')"
  unfolding clear_def
  by (auto split: sum.splits intro!: keeps_and_then keeps_write_text keeps_logger elim: keeps_result)

lemma keeps_auto_format: "keeps w (x, w') \<Longrightarrow> keeps w (auto_format c w')"
  unfolding auto_format_def Let_def
  by (auto split: sum.splits intro!: keeps_emit keeps_files_update keeps_logger elim: keeps_result)

lemma keeps_bind_try: "keeps w (x, w') \<Longrightarrow> keeps w (bind_try proc c part w')"
  unfolding bind_try_def Let_def
  by (auto split: option.splits
      intro!: keeps_and_then keeps_read_text keeps_mkdir keeps_write_text keeps_clear keeps_logger keeps_emit
      elim: keeps_result)

lemma keeps_trans:
  assumes "keeps w (x, w')" and "keeps w' r"
  shows "keeps w r"
proof -
  from assms(1) obtain evs1 where 1: "trace w' = trace w @ evs1" "list_all quiet evs1"
    and p1: "progress_file w' = progress_file w" "context_file w' = context_file w"
    by (auto simp: keeps_def)
  from assms(2) obtain evs2 where 2: "trace (snd r) = trace w' @ evs2" "list_all quiet evs2"
    and p2: "progress_file (snd r) = progress_file w'" "context_file (snd r) = context_file w'"
    by (auto simp: keeps_def)
  have "trace (snd r) = trace w @ (evs1 @ evs2) \<and> list_all quiet (evs1 @ evs2)"
    using 1 2 by simp
  then show ?thesis unfolding keeps_def using p1 p2 by metis
qed

lemma emit_simps [simp]:
  "files (emit e w) = files w" "progress_file (emit e w) = progress_file w"
  "context_file (emit e w) = context_file w" "trace (emit e w) = trace w @ [e]"
  by (simp_all add: emit_def)

lemma logger_simps [simp]:
  "files (logger l w) = files w" "progress_file (logger l w) = progress_file w"
  "context_file (logger l w) = context_file w" "trace (logger l w) = trace w @ [EvLog l]"
  by (simp_all add: logger_def)

lemma path_exists_files: "files w' = files w \<Longrightarrow> path_exists c p w' = path_exists c p w"
  by (simp add: path_exists_def split: option.splits)

lemma path_exists_simps [simp]:
  "path_exists c p (emit e w) = path_exists c p w"
  "path_exists c p (logger l w) = path_exists c p w"
  by (simp_all add: path_exists_def split: option.splits)

lemma bind_invalid_part:
  "part \<noteq> 1 \<Longrightarrow> part \<noteq> 2 \<Longrightarrow>
     bind proc c part ov w = (Inr (), logger ERROR (emit (EvCallBind part ov) w))"
  by (simp add: bind_def)

lemma bind_valid_part:
  assumes "part = 1 \<or> part = 2"
  shows "bind proc c part ov w =
     (case path_exists c NOTEPAD_PATH w of
        Inl e \<Rightarrow> (Inl e, logger INFO (emit (EvCallBind part ov) w))
      | Inr source_exists \<Rightarrow>
          if \<not> source_exists
          then (Inr (), logger ERROR (logger INFO (emit (EvCallBind part ov) w)))
          else
            and_then (auto_format c (logger INFO (emit (EvCallBind part ov) w)))
              (\<lambda>u w3.
                 case path_exists c (dest_path proc part) w3 of
                   Inl e \<Rightarrow> (Inl e, w3)
                 | Inr dest_exists \<Rightarrow>
                     if dest_exists \<and> \<not> ov
                     then (Inr (), logger WARNING w3)
                     else (case bind_try proc c part w3 of
                             (Inl e, w4) \<Rightarrow> (Inr (), logger ERROR w4)
                           | (Inr u, w4) \<Rightarrow> (Inr (), w4))))"
proof -
  have np: "(part \<noteq> 1 \<and> part \<noteq> 2) = False" using assms by auto
  show ?thesis unfolding bind_def Let_def np if_False path_exists_simps by (rule refl)
qed

lemma keeps_bind_call: "keeps (emit (EvCallBind part ov) w) (bind proc c part ov w)"
proof -
  let ?w1 = "emit (EvCallBind part ov) w"
  have k1: "keeps ?w1 (Inr (), ?w1)" by (rule keeps_refl)
  have k2: "keeps ?w1 (Inr (), logger INFO ?w1)" by (rule keeps_logger [OF k1])
  have t: "keeps ?w1 (case bind_try proc c part w3 of
                        (Inl e, w4) \<Rightarrow> (Inr (), logger ERROR w4)
                      | (Inr u, w4) \<Rightarrow> (Inr (), w4))"
    if "keeps ?w1 (Inr u :: py_exception + unit, w3)" for w3 u
  proof -
    from that have "keeps ?w1 (bind_try proc c part w3)" by (rule keeps_bind_try)
    then show ?thesis
      by (cases "bind_try proc c part w3") (auto split: sum.splits intro: keeps_logger elim: keeps_result)
  qed
  show ?thesis
  proof (cases "part \<noteq> 1 \<and> part \<noteq> 2")
    case True
    then show ?thesis
      using keeps_logger [OF k1, where x' = "Inr ()" and l = ERROR] by (simp add: bind_invalid_part)
  next
    case False
    then have v: "part = 1 \<or> part = 2" by auto
    show ?thesis
    proof (cases "path_exists c NOTEPAD_PATH w")
      case (Inl e)
      then show ?thesis
        unfolding bind_valid_part [OF v] using keeps_result [OF k2] by simp
    next
      case (Inr source_exists)
      show ?thesis
      proof (cases source_exists)
        case False
        then show ?thesis
          unfolding bind_valid_part [OF v] Inr
          using keeps_logger [OF k2, where x' = "Inr ()" and l = ERROR] by simp
      next
        case True
        have "keeps ?w1 (and_then (auto_format c (logger INFO ?w1))
              (\<lambda>u w3.
                 case path_exists c (dest_path proc part) w3 of
                   Inl e \<Rightarrow> (Inl e, w3)
                 | Inr dest_exists \<Rightarrow>
                     if dest_exists \<and> \<not> ov
                     then (Inr (), logger WARNING w3)
                     else (case bind_try proc c part w3 of
                             (Inl e, w4) \<Rightarrow> (Inr (), logger ERROR w4)
                           | (Inr u, w4) \<Rightarrow> (Inr (), w4))))"
        proof (rule keeps_and_then)
          show "keeps ?w1 (auto_format c (logger INFO ?w1))"
            by (rule keeps_auto_format [OF k2])
        next
          fix u w3 assume k3: "keeps ?w1 (Inr u :: py_exception + unit, w3)"
          show "keeps ?w1 (case path_exists c (dest_path proc part) w3 of
                   Inl e \<Rightarrow> (Inl e, w3)
                 | Inr dest_exists \<Rightarrow>
                     if dest_exists \<and> \<not> ov
                     then (Inr (), logger WARNING w3)
                     else (case bind_try proc c part w3 of
                             (Inl e, w4) \<Rightarrow> (Inr (), logger ERROR w4)
                           | (Inr u, w4) \<Rightarrow> (Inr (), w4)))"
            using keeps_logger [OF k3, where x' = "Inr ()" and l = WARNING] t [OF k3]
              keeps_result [OF k3]
            by (auto split: sum.splits)
        qed
        then show ?thesis unfolding bind_valid_part [OF v] Inr using True by simp
      qed
    qed
  qed
qed

lemma keeps_bind: "keeps w (x, w') \<Longrightarrow> keeps w (bind proc c part ov w')"
proof -
  assume "keeps w (x, w')"
  then have "keeps w (x, emit (EvCallBind part ov) w')" by (rule keeps_emit [rotated]) simp
  then show ?thesis using keeps_bind_call by (rule keeps_trans)
qed

lemma bind_trace:
  "\<exists>evs. trace (snd (bind proc c part ov w)) = trace w @ EvCallBind part ov # evs
         \<and> list_all quiet evs
         \<and> progress_file (snd (bind proc c part ov w)) = progress_file w"
proof -
  from keeps_bind_call [of part ov w proc c] obtain evs where
    "trace (snd (bind proc c part ov w)) = trace (emit (EvCallBind part ov) w) @ evs"
    "list_all quiet evs"
    "progress_file (snd (bind proc c part ov w)) = progress_file (emit (EvCallBind part ov) w)"
    by (auto simp: keeps_def)
  then have "trace (snd (bind proc c part ov w)) = trace w @ EvCallBind part ov # evs
         \<and> list_all quiet evs
         \<and> progress_file (snd (bind proc c part ov w)) = progress_file w"
    by simp
  then show ?thesis by blast
qed

lemma str_int_examples:
  "str_int 2024 = ascii ''2024''" "str_int 3 = ascii ''3''" "str_int 1 = ascii ''1''"
  "str_int 2 = ascii ''2''" "str_int 7 = ascii ''7''" "str_int 42 = ascii ''42''"
  by (simp_all add: str_int_def str_nat.simps ascii_def)

lemma live_proc_simps:
  "TEST_MODE live_proc = False" "year live_proc = 2024" "day live_proc = 3"
  by (simp_all add: live_proc_def)

lemma stars_w_solved: "stars_for (progress_file w_solved) (ascii ''2024'') (ascii ''3'') = 1"
  by (simp add: w_solved_def stars_for_def year_entry_def)

lemma stars_w0: "stars_for (progress_file w0) ys ds = 0"
  by (simp add: w0_def stars_for_def year_entry_def)

lemma c0_simps:
  "scrape_day_page_for_answers c0 y d = Inr [1 \<mapsto> ascii ''42'']"
  "get_bool_config_setting c0 n (Some b) = b"
  "get_bool_config_setting c0 n None = False"
  "post_answer c0 y d p a = Inr (ascii ''That's not the right answer.'')"
  "git_commit_solution c0 y d p = None"
  "ruff_format c0 (Some s) = Inr s"
  "io_fault c0 op = None"
  by (simp_all add: c0_def)

lemma py_in_both:
  "py_in RIGHT_ANSWER both_phrases" "py_in WRONG_LEVEL both_phrases"
  unfolding both_phrases_def py_in_iff
  by (metis append_Nil, metis append_Nil2 append_assoc)

lemma submit_progress:
  "progress_file (snd (submit proc c answer part w)) = progress_file w
   \<or> ((part = 1 \<or> part = 2)
       \<and> progress_file (snd (submit proc c answer part w)) =
           set_stars (progress_file w) (str_int (year proc)) (str_int (day proc))
             (max (stars_for (progress_file w) (str_int (year proc)) (str_int (day proc))) part))"
proof (cases "TEST_MODE proc")
  case True
  then show ?thesis by (simp add: submit_in_test_mode)
next
  case t: False
  show ?thesis
  proof (cases "part \<noteq> 1 \<and> part \<noteq> 2")
    case True
    then show ?thesis using t by (simp add: submit_def)
  next
    case False
    then have v: "part = 1 \<or> part = 2" by auto
    show ?thesis
    proof (cases "part \<le> stars_for (progress_file w) (str_int (year proc)) (str_int (day proc))")
      case True
      show ?thesis
        unfolding submit_verify [OF t v True]
        by (simp split: sum.splits option.splits)
    next
      case False
      then have lt: "stars_for (progress_file w) (str_int (year proc)) (str_int (day proc)) < part"
        by simp
      then have mx: "max (stars_for (progress_file w) (str_int (year proc)) (str_int (day proc))) part = part"
        by simp
      let ?pd = "set_stars (progress_file w) (str_int (year proc)) (str_int (day proc)) part"
      let ?w3 = "w\<lparr>progress_file := ?pd,
                         trace := trace w @ [EvReadProgress, EvPostAnswer (year proc) (day proc) part answer,
                                             EvLog INFO, EvWriteProgress ?pd, EvLog INFO]\<rparr>"
      have "keeps ?w3 (bind proc c part False ?w3)"
        by (rule keeps_bind [OF keeps_refl [of ?w3 "Inr ()"]])
      then have b: "progress_file (snd (bind proc c part False ?w3)) = ?pd"
        by (simp add: keeps_def)
      have a: "\<And>r f. progress_file (snd (and_then r (\<lambda>u w4. (f, w4)))) = progress_file (snd r)"
        by (simp add: and_then_def split: prod.splits sum.splits)
      show ?thesis
        unfolding submit_post [OF t v lt] Let_def mx
        using v b by (simp add: a split: sum.splits)
    qed
  qed
qed

lemma set_stars_max_mono:
  "stars_for pd ys' ds' \<le> stars_for (set_stars pd ys ds (max (stars_for pd ys ds) p)) ys' ds'"
  by (simp add: stars_for_set_stars)

lemma submit_stars_mono:
  "stars_for (progress_file w) ys ds \<le> stars_for (progress_file (snd (submit proc c answer part w))) ys ds"
  using submit_progress [of proc c answer part w] set_stars_max_mono [of "progress_file w" ys ds]
  by (metis order_refl)

lemma submits_stars_mono:
  "stars_for (progress_file w) ys ds \<le> stars_for (progress_file (submits calls w)) ys ds"
proof (induction calls arbitrary: w)
  case Nil
  then show ?case by simp
next
  case (Cons call calls)
  obtain proc c answer part where call: "call = (proc, c, answer, part)"
    by (metis prod_cases4)
  have "stars_for (progress_file w) ys ds
        \<le> stars_for (progress_file (snd (submit proc c answer part w))) ys ds"
    by (rule submit_stars_mono)
  also have "\<dots> \<le> stars_for (progress_file (submits calls (snd (submit proc c answer part w)))) ys ds"
    by (rule Cons.IH)
  finally show ?case by (simp add: call)
qed


lemma submits_append: "submits (calls1 @ calls2) w = submits calls2 (submits calls1 w)"
  by (induction calls1 arbitrary: w) auto

lemma split_nl_nonempty [simp]: "split_nl s \<noteq> []"
  by (induction s) (auto split: list.splits)

lemma split_nl_Cons_other:
  "c \<noteq> NL \<Longrightarrow> split_nl (c # cs) = (c # hd (split_nl cs)) # tl (split_nl cs)"
  by (cases "split_nl cs") auto

lemma split_nl_Cons_NL: "split_nl (NL # cs) = [] # split_nl cs"
  by simp

declare split_nl.simps(2) [simp del]

lemma hd_split_nl_prefix:
  "\<exists>rest. s = hd (split_nl s) @ rest \<and> (rest = [] \<or> hd rest = NL)"
proof (induction s)
  case Nil
  then show ?case by simp
next
  case (Cons c cs)
  show ?case
  proof (cases "c = NL")
    case True
    then show ?thesis by (simp add: split_nl_Cons_NL)
  next
    case False
    from Cons obtain rest where r: "cs = hd (split_nl cs) @ rest" "rest = [] \<or> hd rest = NL" by blast
    have "hd (split_nl (c # cs)) = c # hd (split_nl cs)"
      unfolding split_nl_Cons_other [OF False] by simp
    then have "c # cs = hd (split_nl (c # cs)) @ rest \<and> (rest = [] \<or> hd rest = NL)"
      using r by simp
    then show ?thesis by blast
  qed
qed

lemma startswith_self_append: "startswith (l @ b) l"
  by (simp add: startswith_iff)

lemma lit_then_append: "lit_then l k (l @ b) = k b"
  by (simp add: lit_then_def startswith_self_append)

lemma star_then_fallback: "k b \<noteq> None \<Longrightarrow> star_then p k b \<noteq> None"
  by (cases b) (auto split: option.splits)

lemma star_then_complete:
  "\<forall>x\<in>set a. p x \<Longrightarrow> k b \<noteq> None \<Longrightarrow> star_then p k (a @ b) \<noteq> None"
  by (induction a) (auto simp: star_then_fallback split: option.splits)

lemma at_eol_complete: "b = [] \<or> hd b = NL \<Longrightarrow> at_eol b \<noteq> None"
  by (cases b) (auto simp: at_eol_def)

lemma bind_pattern_complete:
  assumes "is_bind_line l" and "b = [] \<or> hd b = NL"
  shows "bind_pattern (l @ b) \<noteq> None"
proof -
  from assms(1) obtain ws1 ws2 args ws3 where
    l: "l = ws1 @ ascii ''aoc.bind'' @ ws2 @ ascii ''('' @ args @ ascii '')'' @ ws3"
    and w1: "\<forall>x\<in>set ws1. is_space x" and w2: "\<forall>x\<in>set ws2. is_space x"
    and w3: "\<forall>x\<in>set ws3. is_space x" and nl: "NL \<notin> set l"
    unfolding is_bind_line_def by blast
  from nl l have a: "\<forall>x\<in>set args. x \<noteq> NL" by auto
  have 7: "star_then is_space at_eol (ws3 @ b) \<noteq> None"
    using w3 at_eol_complete [OF assms(2)] by (rule star_then_complete)
  have 6: "lit_then (ascii '')'') (star_then is_space at_eol) (ascii '')'' @ ws3 @ b) \<noteq> None"
    unfolding lit_then_append by (rule 7)
  have 5: "star_then (\<lambda>c. c \<noteq> NL) (lit_then (ascii '')'') (star_then is_space at_eol))
             (args @ ascii '')'' @ ws3 @ b) \<noteq> None"
    using a 6 by (rule star_then_complete)
  have 4: "lit_then (ascii ''('') (star_then (\<lambda>c. c \<noteq> NL) (lit_then (ascii '')'') (star_then is_space at_eol)))
             (ascii ''('' @ args @ ascii '')'' @ ws3 @ b) \<noteq> None"
    unfolding lit_then_append by (rule 5)
  have 3: "star_then is_space (lit_then (ascii ''('') (star_then (\<lambda>c. c \<noteq> NL) (lit_then (ascii '')'') (star_then is_space at_eol))))
             (ws2 @ ascii ''('' @ args @ ascii '')'' @ ws3 @ b) \<noteq> None"
    using w2 4 by (rule star_then_complete)
  have 2: "lit_then (ascii ''aoc.bind'') (star_then is_space (lit_then (ascii ''('') (star_then (\<lambda>c. c \<noteq> NL) (lit_then (ascii '')'') (star_then is_space at_eol)))))
             (ascii ''aoc.bind'' @ ws2 @ ascii ''('' @ args @ ascii '')'' @ ws3 @ b) \<noteq> None"
    unfolding lit_then_append by (rule 3)
  have 1: "bind_pattern (ws1 @ ascii ''aoc.bind'' @ ws2 @ ascii ''('' @ args @ ascii '')'' @ ws3 @ b) \<noteq> None"
    unfolding bind_pattern_def using w1 2 by (rule star_then_complete)
  show ?thesis using 1 unfolding l by simp
qed

lemma bind_pattern_None_hd:
  "bind_pattern s = None \<Longrightarrow> \<not> is_bind_line (hd (split_nl s))"
  using hd_split_nl_prefix [of s] bind_pattern_complete by metis

lemma not_bind_line_Nil [simp]: "\<not> is_bind_line []"
  by (simp add: is_bind_line_def ascii_def)

lemma re_sub_bind_no_match:
  "\<not> line_start prev \<or> bind_pattern s = None \<Longrightarrow>
     re_sub_bind prev s = (case s of [] \<Rightarrow> [] | c # cs \<Rightarrow> c # re_sub_bind (Some c) cs)"
  by (subst re_sub_bind.simps) (auto simp: line_start_def)

lemma re_sub_bind_match:
  "line_start prev \<Longrightarrow> bind_pattern s = Some r \<Longrightarrow>
     re_sub_bind prev s = re_sub_bind (Some (last (take (length s - length r) s))) r"
  by (subst re_sub_bind.simps) (auto simp: line_start_def)

lemma re_sub_bind_hd:
  "\<not> line_start prev \<Longrightarrow> hd (split_nl (re_sub_bind prev s)) = hd (split_nl s)"
proof (induction s arbitrary: prev)
  case Nil
  then show ?case by (simp add: re_sub_bind_no_match)
next
  case (Cons c cs)
  have r: "re_sub_bind prev (c # cs) = c # re_sub_bind (Some c) cs"
    using Cons.prems by (simp add: re_sub_bind_no_match)
  show ?case
  proof (cases "c = NL")
    case True
    then show ?thesis unfolding r by (simp add: split_nl_Cons_NL)
  next
    case False
    then have "\<not> line_start (Some c)" by (simp add: line_start_def)
    then have "hd (split_nl (re_sub_bind (Some c) cs)) = hd (split_nl cs)" by (rule Cons.IH)
    then show ?thesis unfolding r using False by (simp add: split_nl_Cons_other)
  qed
qed

lemma re_sub_bind_lines:
  "(\<forall>l\<in>set (tl (split_nl (re_sub_bind prev s))). \<not> is_bind_line l)
   \<and> (line_start prev \<or> s = [] \<or> hd s = NL \<longrightarrow> \<not> is_bind_line (hd (split_nl (re_sub_bind prev s))))
   \<and> (s = [] \<or> hd s = NL \<longrightarrow> re_sub_bind prev s = [] \<or> hd (re_sub_bind prev s) = NL)"
proof (induction prev s rule: re_sub_bind.induct)
  case (1 prev s)
  show ?case
  proof (cases "line_start prev \<and> bind_pattern s \<noteq> None")
    case True
    then obtain r where r: "bind_pattern s = Some r" by blast
    from bind_pattern_Some [OF r] have re: "r = [] \<or> hd r = NL" by blast
    have c: "(if prev = None \<or> prev = Some NL then bind_pattern s else None) = Some r"
      using True r by (simp add: line_start_def)
    note IH = "1.IH"(2) [OF c]
    have eq: "re_sub_bind prev s = re_sub_bind (Some (last (take (length s - length r) s))) r"
      using True r by (simp add: re_sub_bind_match)
    show ?thesis unfolding eq using IH re by blast
  next
    case False
    then have nm: "\<not> line_start prev \<or> bind_pattern s = None" by blast
    then have c: "(if prev = None \<or> prev = Some NL then bind_pattern s else None) = None"
      by (auto simp: line_start_def)
    show ?thesis
    proof (cases s)
      case Nil
      then show ?thesis using nm by (simp add: re_sub_bind_no_match)
    next
      case (Cons x xs)
      note IH = "1.IH"(1) [OF c Cons]
      have eq: "re_sub_bind prev s = x # re_sub_bind (Some x) xs"
        using nm Cons by (simp add: re_sub_bind_no_match)
      show ?thesis
      proof (cases "x = NL")
        case True
        have ls: "line_start (Some x)" using True by (simp add: line_start_def)
        have "\<forall>l\<in>set (split_nl (re_sub_bind (Some x) xs)). \<not> is_bind_line l"
        proof
          fix l assume "l \<in> set (split_nl (re_sub_bind (Some x) xs))"
          then have "l = hd (split_nl (re_sub_bind (Some x) xs)) \<or> l \<in> set (tl (split_nl (re_sub_bind (Some x) xs)))"
            by (cases "split_nl (re_sub_bind (Some x) xs)") auto
          then show "\<not> is_bind_line l" using IH ls by blast
        qed
        then show ?thesis unfolding eq using True by (simp add: split_nl_Cons_NL)
      next
        case x: False
        have tl_ok: "\<forall>l\<in>set (tl (split_nl (x # re_sub_bind (Some x) xs))). \<not> is_bind_line l"
          unfolding split_nl_Cons_other [OF x] using IH by simp
        have hd_ok: "line_start prev \<longrightarrow> \<not> is_bind_line (hd (split_nl (x # re_sub_bind (Some x) xs)))"
        proof
          assume lp: "line_start prev"
          with nm have none: "bind_pattern s = None" by blast
          have "\<not> line_start (Some x)" using x by (simp add: line_start_def)
          then have "hd (split_nl (re_sub_bind (Some x) xs)) = hd (split_nl xs)"
            by (rule re_sub_bind_hd)
          then have "hd (split_nl (x # re_sub_bind (Some x) xs)) = hd (split_nl s)"
            unfolding Cons split_nl_Cons_other [OF x] by simp
          then show "\<not> is_bind_line (hd (split_nl (x # re_sub_bind (Some x) xs)))"
            using bind_pattern_None_hd [OF none] by simp
        qed
        show ?thesis unfolding eq using tl_ok hd_ok x Cons by simp
      qed
    qed
  qed
qed

lemma re_sub_bind_no_bind_line:
  "l \<in> set (split_nl (re_sub_bind None s)) \<Longrightarrow> \<not> is_bind_line l"
proof -
  assume l: "l \<in> set (split_nl (re_sub_bind None s))"
  then have "l = hd (split_nl (re_sub_bind None s)) \<or> l \<in> set (tl (split_nl (re_sub_bind None s)))"
    by (cases "split_nl (re_sub_bind None s)") auto
  then show ?thesis using re_sub_bind_lines [of None s] by (auto simp: line_start_def)
qed

lemma split_nl_snoc_NL: "split_nl (u @ [NL]) = split_nl u @ [[]]"
proof (induction u)
  case Nil
  then show ?case by (simp add: split_nl_Cons_NL)
next
  case (Cons c u)
  show ?case
  proof (cases "c = NL")
    case True
    then show ?thesis using Cons by (simp add: split_nl_Cons_NL)
  next
    case False
    then show ?thesis using Cons by (simp add: split_nl_Cons_other)
  qed
qed

lemma split_nl_snoc_other:
  "x \<noteq> NL \<Longrightarrow> split_nl (u @ [x]) = butlast (split_nl u) @ [last (split_nl u) @ [x]]"
proof (induction u)
  case Nil
  then show ?case by (simp add: split_nl_Cons_other)
next
  case (Cons c u)
  show ?case
  proof (cases "c = NL")
    case True
    then show ?thesis using Cons by (simp add: split_nl_Cons_NL)
  next
    case False
    show ?thesis
    proof (cases "split_nl u")
      case Nil
      then show ?thesis by simp
    next
      case (Cons l ls)
      then show ?thesis using False Cons.IH [OF Cons.prems]
        by (cases ls) (simp_all add: split_nl_Cons_other)
    qed
  qed
qed

lemma is_bind_line_snoc:
  assumes "is_bind_line l" and "is_space x" and "x \<noteq> NL"
  shows "is_bind_line (l @ [x])"
proof -
  from assms(1) obtain ws1 ws2 args ws3 where
    l: "l = ws1 @ ascii ''aoc.bind'' @ ws2 @ ascii ''('' @ args @ ascii '')'' @ ws3"
    and w: "\<forall>x\<in>set ws1. is_space x" "\<forall>x\<in>set ws2. is_space x" "\<forall>x\<in>set ws3. is_space x"
    and nl: "NL \<notin> set l"
    unfolding is_bind_line_def by blast
  have "l @ [x] = ws1 @ ascii ''aoc.bind'' @ ws2 @ ascii ''('' @ args @ ascii '')'' @ (ws3 @ [x])"
    using l by simp
  moreover have "\<forall>y\<in>set (ws3 @ [x]). is_space y" using w(3) assms(2) by simp
  moreover have "NL \<notin> set (l @ [x])" using nl assms(3) by simp
  ultimately show ?thesis unfolding is_bind_line_def using w(1,2) by blast
qed

lemma no_bind_line_snoc:
  assumes "is_space x" and "\<forall>l\<in>set (split_nl (u @ [x])). \<not> is_bind_line l"
  shows "\<forall>l\<in>set (split_nl u). \<not> is_bind_line l"
proof (cases "x = NL")
  case True
  then show ?thesis using assms(2) by (simp add: split_nl_snoc_NL)
next
  case False
  show ?thesis
  proof
    fix l assume l: "l \<in> set (split_nl u)"
    have "l \<in> set (butlast (split_nl u)) \<or> l = last (split_nl u)"
    proof (cases "split_nl u" rule: rev_cases)
      case Nil
      then show ?thesis by simp
    next
      case (snoc ys y)
      then show ?thesis using l by auto
    qed
    then consider "l \<in> set (butlast (split_nl u))" | "l = last (split_nl u)" by blast
    then show "\<not> is_bind_line l"
    proof cases
      case 1
      then show ?thesis using assms(2) by (simp add: split_nl_snoc_other [OF False])
    next
      case 2
      have "\<not> is_bind_line (last (split_nl u) @ [x])"
        using assms(2) by (simp add: split_nl_snoc_other [OF False])
      then show ?thesis using 2 is_bind_line_snoc [OF _ assms(1) False] by blast
    qed
  qed
qed

lemma no_bind_line_strip:
  "\<forall>x\<in>set w. is_space x \<Longrightarrow> \<forall>l\<in>set (split_nl (u @ w)). \<not> is_bind_line l \<Longrightarrow>
     \<forall>l\<in>set (split_nl u). \<not> is_bind_line l"
proof (induction w rule: rev_induct)
  case Nil
  then show ?case by simp
next
  case (snoc x w)
  have "\<forall>l\<in>set (split_nl ((u @ w) @ [x])). \<not> is_bind_line l" using snoc.prems(2) by simp
  moreover have "is_space x" using snoc.prems(1) by simp
  ultimately have "\<forall>l\<in>set (split_nl (u @ w)). \<not> is_bind_line l"
    using no_bind_line_snoc [of x "u @ w"] by blast
  then show ?case using snoc by simp
qed

lemma rstrip_append: "s = rstrip s @ rev (takeWhile is_space (rev s))"
proof -
  have "rev (takeWhile is_space (rev s) @ dropWhile is_space (rev s)) = rev (rev s)"
    by (simp only: takeWhile_dropWhile_id)
  then have "rev (dropWhile is_space (rev s)) @ rev (takeWhile is_space (rev s)) = s"
    by (simp only: rev_append rev_rev_ident)
  then show ?thesis unfolding rstrip_def by (rule sym)
qed

lemma rstrip_no_bind_line:
  assumes "\<forall>l\<in>set (split_nl s). \<not> is_bind_line l"
  shows "\<forall>l\<in>set (split_nl (rstrip s)). \<not> is_bind_line l"
proof -
  have w: "\<forall>x\<in>set (rev (takeWhile is_space (rev s))). is_space x"
    by (auto dest: set_takeWhileD)
  have "\<forall>l\<in>set (split_nl (rstrip s @ rev (takeWhile is_space (rev s)))). \<not> is_bind_line l"
    using assms rstrip_append [of s] by simp
  then show ?thesis using no_bind_line_strip [OF w] by blast
qed

lemma rstrip_trimmed: "rstrip s = [] \<or> \<not> is_space (last (rstrip s))"
proof (cases "dropWhile is_space (rev s)")
  case Nil
  then show ?thesis by (simp add: rstrip_def)
next
  case (Cons x xs)
  then have "\<not> is_space x" using hd_dropWhile [of is_space "rev s"] by simp
  then show ?thesis using Cons by (simp add: rstrip_def)
qed

lemma cleaned_no_bind_line:
  "l \<in> set (split_nl (rstrip (re_sub_bind None content))) \<Longrightarrow> \<not> is_bind_line l"
  using rstrip_no_bind_line [of "re_sub_bind None content"] re_sub_bind_no_bind_line by blast

lemma is_bind_line_example: "is_bind_line (ascii ''  aoc.bind(part=1)  '')"
proof -
  have "ascii ''  aoc.bind(part=1)  '' =
      ascii ''  '' @ ascii ''aoc.bind'' @ [] @ ascii ''('' @ ascii ''part=1'' @ ascii '')'' @ ascii ''  ''"
    by (simp add: ascii_def)
  moreover have "\<forall>x\<in>set (ascii ''  ''). is_space x" by (simp add: ascii_def is_space_def)
  moreover have "NL \<notin> set (ascii ''  aoc.bind(part=1)  '')" by (simp add: ascii_def NL_def)
  ultimately show ?thesis unfolding is_bind_line_def by (metis empty_iff list.set(1))
qed

lemma dest_path_neq [simp]: "dest_path proc part \<noteq> NOTEPAD_PATH" "NOTEPAD_PATH \<noteq> dest_path proc part"
  by (simp_all add: dest_path_def)

lemma formatter_escapes_simps [simp]:
  "formatter_escapes c (emit e w) = formatter_escapes c w"
  "formatter_escapes c (logger l w) = formatter_escapes c w"
  by (simp_all add: formatter_escapes_def)

lemma auto_format_escapes:
  assumes "files w NOTEPAD_PATH = Some scratch" and "formatter_escapes c w = Some e"
  shows "fst (auto_format c w) = Inl e"
  using assms
  by (auto simp: formatter_escapes_def auto_format_def Let_def split: if_splits sum.splits)

lemma auto_format_ok:
  assumes "files w NOTEPAD_PATH = Some scratch" and "formatter_escapes c w = None"
  shows "fst (auto_format c w) = Inr ()"
    and "files (snd (auto_format c w)) = (files w)(NOTEPAD_PATH \<mapsto> formatted_scratch c scratch)"
  using assms
  by (auto simp: formatter_escapes_def formatted_scratch_def auto_format_def Let_def
      split: if_splits sum.splits)

lemma auto_format_world:
  "(\<forall>p. p \<noteq> NOTEPAD_PATH \<longrightarrow> files (snd (auto_format c w)) p = files w p)
   \<and> (\<exists>evs. trace (snd (auto_format c w)) = trace w @ evs \<and> list_all silent evs)"
  by (auto simp: auto_format_def Let_def split: sum.splits)

lemma bind_try_fault:
  assumes "files w3 NOTEPAD_PATH = Some content" and "archive_fault proc c part"
  shows "\<exists>e. fst (bind_try proc c part w3) = Inl e"
  using assms
  unfolding archive_fault_def bind_try_def and_then_def read_text_def mkdir_def write_text_def
    clear_def path_exists_def Let_def
  by (auto split: option.splits)

lemma bind_try_writes:
  assumes "files w3 NOTEPAD_PATH = Some content"
    and "io_fault c (ReadText NOTEPAD_PATH) = None"
    and "io_fault c (Mkdir (dest_dir proc)) = None"
    and "io_fault c (WriteText (dest_path proc part)) = None"
  shows "files (snd (bind_try proc c part w3)) (dest_path proc part)
           = Some (rstrip (re_sub_bind None (universal_newlines content)))"
  using assms
  unfolding bind_try_def and_then_def read_text_def mkdir_def write_text_def clear_def
    path_exists_def Let_def
  by (auto split: option.splits)

text \<open>
  Whatever fails, the \<^verbatim>\<open>try\<close> block leaves the destination as it was or holding a cleaned
  text, leaves every other file but the scratch file as it was, and writes a file only
  to store a cleaned text at the destination or to empty the scratch file.
\<close>

lemma bind_try_files:
  "(files (snd (bind_try proc c part w3)) (dest_path proc part) = files w3 (dest_path proc part)
    \<or> (\<exists>content. files (snd (bind_try proc c part w3)) (dest_path proc part)
                      = Some (rstrip (re_sub_bind None content))))
   \<and> (\<forall>p. p \<noteq> NOTEPAD_PATH \<and> p \<noteq> dest_path proc part \<longrightarrow>
          files (snd (bind_try proc c part w3)) p = files w3 p)"
  unfolding bind_try_def and_then_def read_text_def mkdir_def write_text_def clear_def
    path_exists_def Let_def
  by (auto split: option.splits)

lemma bind_outcome:
  "fst (bind proc c part ov w) =
     (if part = 1 \<or> part = 2
      then (case bind_escapes proc c part w of Some e \<Rightarrow> Inl e | None \<Rightarrow> Inr ())
      else Inr ())"
proof (cases "part = 1 \<or> part = 2")
  case False
  then show ?thesis by (simp add: bind_invalid_part)
next
  case v: True
  let ?w2 = "logger INFO (emit (EvCallBind part ov) w)"
  have f2: "files ?w2 = files w" by (simp add: fun_eq_iff)
  show ?thesis
  proof (cases "io_fault c (Exists NOTEPAD_PATH)")
    case (Some e)
    then show ?thesis using v
      by (simp add: bind_valid_part [OF v] bind_escapes_def path_exists_def)
  next
    case x: None
    show ?thesis
    proof (cases "files w NOTEPAD_PATH")
      case None
      then show ?thesis using v x
        by (simp add: bind_valid_part [OF v] bind_escapes_def path_exists_def)
    next
      case (Some scratch)
      have pe: "path_exists c NOTEPAD_PATH w = Inr True"
        using x Some by (simp add: path_exists_def)
      have n2: "files ?w2 NOTEPAD_PATH = Some scratch" using Some by simp
      obtain r w3 where a: "auto_format c ?w2 = (r, w3)" by (cases "auto_format c ?w2")
      show ?thesis
      proof (cases "formatter_escapes c w")
        case fe: (Some e)
        then have "formatter_escapes c ?w2 = Some e" by simp
        then have r: "r = Inl e" using auto_format_escapes [OF n2, of c e] a by simp
        have "bind proc c part ov w = (Inl e, w3)"
          unfolding bind_valid_part [OF v] pe a r and_then_def by simp
        moreover have "bind_escapes proc c part w = Some e"
          using x Some fe by (simp add: bind_escapes_def)
        ultimately show ?thesis using v by simp
      next
        case fe: None
        then have fe2: "formatter_escapes c ?w2 = None" by simp
        have r: "r = Inr ()" using auto_format_ok(1) [OF n2 fe2] a by simp
        have be: "bind_escapes proc c part w = io_fault c (Exists (dest_path proc part))"
          using x Some fe by (simp add: bind_escapes_def)
        have b: "bind proc c part ov w =
            (case path_exists c (dest_path proc part) w3 of
               Inl e \<Rightarrow> (Inl e, w3)
             | Inr dest_exists \<Rightarrow>
                 if dest_exists \<and> \<not> ov
                 then (Inr (), logger WARNING w3)
                 else (case bind_try proc c part w3 of
                         (Inl e, w4) \<Rightarrow> (Inr (), logger ERROR w4)
                       | (Inr u, w4) \<Rightarrow> (Inr (), w4)))"
          unfolding bind_valid_part [OF v] pe a r and_then_def by simp
        show ?thesis
        proof (cases "io_fault c (Exists (dest_path proc part))")
          case (Some e)
          then have "path_exists c (dest_path proc part) w3 = Inl e" by (simp add: path_exists_def)
          then show ?thesis unfolding b be using v Some by simp
        next
          case None
          then have "path_exists c (dest_path proc part) w3 = Inr (files w3 (dest_path proc part) \<noteq> None)"
            by (simp add: path_exists_def)
          then have "fst (bind proc c part ov w) = Inr ()"
            unfolding b by (cases "bind_try proc c part w3") (simp split: sum.splits)
          then show ?thesis unfolding be using v None by simp
        qed
      qed
    qed
  qed
qed

lemma bind_guard:
  assumes "files w (dest_path proc part) \<noteq> None" and "\<not> ov"
  shows "(\<forall>p. p \<noteq> NOTEPAD_PATH \<longrightarrow> files (snd (bind proc c part ov w)) p = files w p)
         \<and> (\<exists>evs. trace (snd (bind proc c part ov w)) = trace w @ evs \<and> list_all silent evs)"
proof (cases "part = 1 \<or> part = 2")
  case False
  then show ?thesis by (simp add: bind_invalid_part)
next
  case v: True
  let ?w2 = "logger INFO (emit (EvCallBind part ov) w)"
  show ?thesis
  proof (cases "path_exists c NOTEPAD_PATH w")
    case (Inl e)
    then show ?thesis by (simp add: bind_valid_part [OF v])
  next
    case (Inr source_exists)
    show ?thesis
    proof (cases source_exists)
      case False
      then show ?thesis using Inr by (simp add: bind_valid_part [OF v])
    next
      case True
      obtain r w3 where a: "auto_format c ?w2 = (r, w3)" by (cases "auto_format c ?w2")
      from auto_format_world [of c ?w2] a obtain evs
        where f3: "\<forall>p. p \<noteq> NOTEPAD_PATH \<longrightarrow> files w3 p = files w p"
          and t3: "trace w3 = trace w @ [EvCallBind part ov, EvLog INFO] @ evs" "list_all silent evs"
        by auto
      have g: "files w3 (dest_path proc part) \<noteq> None" using f3 assms(1) by simp
      have b: "bind proc c part ov w =
          (case r of Inl e \<Rightarrow> (Inl e, w3)
           | Inr u \<Rightarrow> (case io_fault c (Exists (dest_path proc part)) of
                         Some e \<Rightarrow> (Inl e, w3)
                       | None \<Rightarrow> (Inr (), logger WARNING w3)))"
        using Inr True a g assms(2)
        by (auto simp: bind_valid_part [OF v] and_then_def path_exists_def split: sum.splits option.splits)
      show ?thesis unfolding b using f3 t3
        by (auto split: sum.splits option.splits)
    qed
  qed
qed

lemma bind_reaches_try:
  assumes v: "part = 1 \<or> part = 2" and n: "files w NOTEPAD_PATH = Some scratch"
    and f: "bind_escapes proc c part w = None" and g: "ov \<or> files w (dest_path proc part) = None"
  shows "\<exists>w3. files w3 = (files w)(NOTEPAD_PATH \<mapsto> formatted_scratch c scratch)
              \<and> bind proc c part ov w =
                   (case bind_try proc c part w3 of
                      (Inl e, w4) \<Rightarrow> (Inr (), logger ERROR w4)
                    | (Inr u, w4) \<Rightarrow> (Inr (), w4))"
proof -
  let ?w2 = "logger INFO (emit (EvCallBind part ov) w)"
  from f n have x: "io_fault c (Exists NOTEPAD_PATH) = None" and fe: "formatter_escapes c w = None"
    and xd: "io_fault c (Exists (dest_path proc part)) = None"
    by (auto simp: bind_escapes_def split: option.splits)
  have pe: "path_exists c NOTEPAD_PATH w = Inr True" using x n by (simp add: path_exists_def)
  have n2: "files ?w2 NOTEPAD_PATH = Some scratch" using n by simp
  have fe2: "formatter_escapes c ?w2 = None" using fe by simp
  obtain r w3 where a: "auto_format c ?w2 = (r, w3)" by (cases "auto_format c ?w2")
  have r: "r = Inr ()" using auto_format_ok(1) [OF n2 fe2] a by simp
  have f3: "files w3 = (files w)(NOTEPAD_PATH \<mapsto> formatted_scratch c scratch)"
    using auto_format_ok(2) [OF n2 fe2] a by simp
  have g3: "path_exists c (dest_path proc part) w3 = Inr (files w (dest_path proc part) \<noteq> None)"
    using xd f3 by (simp add: path_exists_def)
  have "bind proc c part ov w =
                   (case bind_try proc c part w3 of
                      (Inl e, w4) \<Rightarrow> (Inr (), logger ERROR w4)
                    | (Inr u, w4) \<Rightarrow> (Inr (), w4))"
    unfolding bind_valid_part [OF v] pe a r and_then_def using g3 g by auto
  then show ?thesis using f3 by blast
qed

lemma bind_archives:
  assumes v: "part = 1 \<or> part = 2" and n: "files w NOTEPAD_PATH = Some scratch"
    and f: "bind_escapes proc c part w = None" and g: "ov \<or> files w (dest_path proc part) = None"
    and io: "io_fault c (ReadText NOTEPAD_PATH) = None" "io_fault c (Mkdir (dest_dir proc)) = None"
            "io_fault c (WriteText (dest_path proc part)) = None"
  shows "files (snd (bind proc c part ov w)) (dest_path proc part)
           = Some (rstrip (re_sub_bind None (universal_newlines (formatted_scratch c scratch))))"
proof -
  from bind_reaches_try [OF v n f g] obtain w3 where
    f3: "files w3 = (files w)(NOTEPAD_PATH \<mapsto> formatted_scratch c scratch)"
    and b: "bind proc c part ov w =
                   (case bind_try proc c part w3 of
                      (Inl e, w4) \<Rightarrow> (Inr (), logger ERROR w4)
                    | (Inr u, w4) \<Rightarrow> (Inr (), w4))"
    by blast
  have n3: "files w3 NOTEPAD_PATH = Some (formatted_scratch c scratch)" using f3 by simp
  have "files (snd (bind_try proc c part w3)) (dest_path proc part)
           = Some (rstrip (re_sub_bind None (universal_newlines (formatted_scratch c scratch))))"
    by (rule bind_try_writes [OF n3 io])
  then show ?thesis unfolding b
    by (cases "bind_try proc c part w3") (auto split: sum.splits)
qed

lemma bind_logs_fault:
  assumes v: "part = 1 \<or> part = 2" and n: "files w NOTEPAD_PATH = Some scratch"
    and f: "bind_escapes proc c part w = None" and g: "ov \<or> files w (dest_path proc part) = None"
    and a: "archive_fault proc c part"
  shows "fst (bind proc c part ov w) = Inr ()
         \<and> last (trace (snd (bind proc c part ov w))) = EvLog ERROR"
proof -
  from bind_reaches_try [OF v n f g] obtain w3 where
    f3: "files w3 = (files w)(NOTEPAD_PATH \<mapsto> formatted_scratch c scratch)"
    and b: "bind proc c part ov w =
                   (case bind_try proc c part w3 of
                      (Inl e, w4) \<Rightarrow> (Inr (), logger ERROR w4)
                    | (Inr u, w4) \<Rightarrow> (Inr (), w4))"
    by blast
  have n3: "files w3 NOTEPAD_PATH = Some (formatted_scratch c scratch)" using f3 by simp
  from bind_try_fault [OF n3 a] obtain e where "fst (bind_try proc c part w3) = Inl e" by blast
  then show ?thesis unfolding b
    by (cases "bind_try proc c part w3") (auto split: sum.splits)
qed

text \<open>
  Every archived copy is a cleaned text: whatever the collaborators do, \<^verbatim>\<open>bind\<close> leaves the
  destination as it was or holding a cleaned text, and it leaves every other file but
  the scratch file as it was.
\<close>

lemma bind_files:
  "(files (snd (bind proc c part ov w)) (dest_path proc part) = files w (dest_path proc part)
    \<or> (\<exists>content. files (snd (bind proc c part ov w)) (dest_path proc part)
                      = Some (rstrip (re_sub_bind None content))))
   \<and> (\<forall>p. p \<noteq> NOTEPAD_PATH \<and> p \<noteq> dest_path proc part \<longrightarrow>
          files (snd (bind proc c part ov w)) p = files w p)"
proof (cases "part = 1 \<or> part = 2")
  case False
  then show ?thesis by (simp add: bind_invalid_part)
next
  case v: True
  let ?w2 = "logger INFO (emit (EvCallBind part ov) w)"
  obtain r w3 where a: "auto_format c ?w2 = (r, w3)" by (cases "auto_format c ?w2")
  from auto_format_world [of c ?w2] a
  have f3: "\<forall>p. p \<noteq> NOTEPAD_PATH \<longrightarrow> files w3 p = files w p" by auto
  obtain rt w4 where t: "bind_try proc c part w3 = (rt, w4)" by (cases "bind_try proc c part w3")
  from bind_try_files [of proc c part w3] t f3
  have f4: "(files w4 (dest_path proc part) = files w (dest_path proc part)
    \<or> (\<exists>content. files w4 (dest_path proc part) = Some (rstrip (re_sub_bind None content))))
   \<and> (\<forall>p. p \<noteq> NOTEPAD_PATH \<and> p \<noteq> dest_path proc part \<longrightarrow> files w4 p = files w p)"
    by simp
  have "snd (bind proc c part ov w) = ?w2 \<or> snd (bind proc c part ov w) = logger ERROR ?w2
        \<or> snd (bind proc c part ov w) = w3 \<or> snd (bind proc c part ov w) = logger WARNING w3
        \<or> snd (bind proc c part ov w) = w4 \<or> snd (bind proc c part ov w) = logger ERROR w4"
    unfolding bind_valid_part [OF v] using a t
    by (auto simp: and_then_def split: sum.splits)
  then show ?thesis using f3 f4 by auto
qed

text \<open>
  Whatever fails, when the \<^verbatim>\<open>try\<close> block changes the destination it stores there the cleaned
  form of the scratch file as \<^verbatim>\<open>read_text\<close> delivers it.
\<close>

lemma bind_try_source:
  "files (snd (bind_try proc c part w3)) (dest_path proc part) = files w3 (dest_path proc part)
   \<or> (\<exists>content. files w3 NOTEPAD_PATH = Some content
         \<and> files (snd (bind_try proc c part w3)) (dest_path proc part)
             = Some (rstrip (re_sub_bind None (universal_newlines content))))"
  unfolding bind_try_def and_then_def read_text_def mkdir_def write_text_def clear_def
    path_exists_def Let_def
  by (auto split: option.splits)

lemma bind_raises_files:
  assumes "fst (bind proc c part ov w) = Inl e"
  shows "\<forall>p. p \<noteq> NOTEPAD_PATH \<longrightarrow> files (snd (bind proc c part ov w)) p = files w p"
proof (cases "part = 1 \<or> part = 2")
  case False
  then show ?thesis by (simp add: bind_invalid_part)
next
  case v: True
  let ?w2 = "logger INFO (emit (EvCallBind part ov) w)"
  obtain r w3 where a: "auto_format c ?w2 = (r, w3)" by (cases "auto_format c ?w2")
  from auto_format_world [of c ?w2] a
  have f3: "\<forall>p. p \<noteq> NOTEPAD_PATH \<longrightarrow> files w3 p = files w p" by auto
  obtain rt w4 where t: "bind_try proc c part w3 = (rt, w4)" by (cases "bind_try proc c part w3")
  have "snd (bind proc c part ov w) = ?w2 \<or> snd (bind proc c part ov w) = logger ERROR ?w2
        \<or> snd (bind proc c part ov w) = w3 \<or> snd (bind proc c part ov w) = logger WARNING w3
        \<or> fst (bind proc c part ov w) = Inr ()"
    unfolding bind_valid_part [OF v] using a t
    by (auto simp: and_then_def split: sum.splits)
  then show ?thesis using assms f3 by auto
qed

text \<open>
  Every archived copy: whatever the input, \<^verbatim>\<open>bind\<close> leaves the destination as it was, or
  the scratch file exists and the destination holds the cleaned form of its (formatted)
  content as \<^verbatim>\<open>read_text\<close> delivers it.
\<close>

lemma bind_source:
  "files (snd (bind proc c part ov w)) (dest_path proc part) = files w (dest_path proc part)
   \<or> (\<exists>scratch. files w NOTEPAD_PATH = Some scratch
         \<and> files (snd (bind proc c part ov w)) (dest_path proc part)
             = Some (rstrip (re_sub_bind None (universal_newlines (formatted_scratch c scratch)))))"
proof -
  let ?d = "dest_path proc part"
  consider (inv) "\<not> (part = 1 \<or> part = 2)"
    | (raise) e where "part = 1 \<or> part = 2" "bind_escapes proc c part w = Some e"
    | (nosrc) "part = 1 \<or> part = 2" "bind_escapes proc c part w = None" "files w NOTEPAD_PATH = None"
    | (guard) "files w ?d \<noteq> None" "\<not> ov"
    | (reach) scratch where "part = 1 \<or> part = 2" "bind_escapes proc c part w = None"
        "files w NOTEPAD_PATH = Some scratch" "ov \<or> files w ?d = None"
    by (cases "bind_escapes proc c part w"; cases "files w NOTEPAD_PATH") auto
  then show ?thesis
  proof cases
    case inv
    then show ?thesis by (simp add: bind_invalid_part)
  next
    case raise
    then have "fst (bind proc c part ov w) = Inl e" by (simp add: bind_outcome)
    from bind_raises_files [OF this] show ?thesis by simp
  next
    case nosrc
    from nosrc(2) have "io_fault c (Exists NOTEPAD_PATH) = None"
      by (auto simp: bind_escapes_def split: option.splits)
    then have "path_exists c NOTEPAD_PATH w = Inr False"
      using nosrc(3) by (simp add: path_exists_def)
    then show ?thesis by (simp add: bind_valid_part [OF nosrc(1)])
  next
    case guard
    from bind_guard [OF guard, of c] show ?thesis by simp
  next
    case reach
    from bind_reaches_try [OF reach(1) reach(3) reach(2) reach(4)] obtain w3 where
      f: "files w3 = (files w)(NOTEPAD_PATH \<mapsto> formatted_scratch c scratch)"
      and b: "bind proc c part ov w =
                (case bind_try proc c part w3 of
                   (Inl e, w4) \<Rightarrow> (Inr (), logger ERROR w4)
                 | (Inr u, w4) \<Rightarrow> (Inr (), w4))"
      by blast
    have s: "files (snd (bind proc c part ov w)) ?d = files (snd (bind_try proc c part w3)) ?d"
      unfolding b by (cases "bind_try proc c part w3") (simp split: sum.splits)
    from bind_try_source [of proc c part w3] f reach(3) show ?thesis unfolding s by auto
  qed
qed

lemma universal_newlines_scratch0: "universal_newlines scratch0 = scratch0"
  by (simp add: scratch0_def ascii_def NL_def)

lemma cleaned_scratch0: "rstrip (re_sub_bind None scratch0) = ascii ''x = 1''"
  by (simp add: scratch0_def ascii_def NL_def rstrip_def re_sub_bind.simps bind_pattern_def
      lit_then_def at_eol_def is_space_def)

lemma split_cleaned_scratch0: "split_nl (ascii ''x = 1'') = [ascii ''x = 1'']"
  by code_simp

lemma c0_escapes: "formatter_escapes c0 w = None" "bind_escapes proc c0 part w = None"
  by (simp_all add: bind_escapes_def formatter_escapes_def c0_def split: option.splits)

lemma c0_formatted: "formatted_scratch c0 s = s"
  by (simp add: formatted_scratch_def c0_def)

section \<open>Test Mode\<close>

text \<open>
  Claim C7. In Test Mode, for every answer and every part, \<^verbatim>\<open>submit\<close> compares
  \<^verbatim>\<open>str(answer)\<close> with the fixed expected string and returns the PASSED or the FAILED
  message; the world is unchanged but for one logger record, so nothing is stored and
  no gateway call is made. With expected \<^verbatim>\<open>"42"\<close>, an answer whose string is \<^verbatim>\<open>"42"\<close> gives
  the PASSED message (the check mark U+2705 followed by \<^verbatim>\<open>" PASSED"\<close>), and an answer whose
  string is \<^verbatim>\<open>"41"\<close> gives a different string that contains both \<^verbatim>\<open>"41"\<close> and \<^verbatim>\<open>"42"\<close>.
\<close>

theorem submit_test_mode:
  "TEST_MODE proc \<Longrightarrow>
     submit proc c answer part w =
       (Inr (if str answer = str_opt (test_expected_answer proc) then PASSED
             else FAILED (str answer) (test_expected_answer proc)),
        w\<lparr>trace := trace w @ [EvLog INFO]\<rparr>)
     \<and> PASSED = 0x2705 # ascii '' PASSED''
     \<and> (test_expected_answer proc = Some (ascii ''42'') \<longrightarrow>
          (str answer = ascii ''42'' \<longrightarrow> fst (submit proc c answer part w) = Inr PASSED)
        \<and> (str answer = ascii ''41'' \<longrightarrow>
              (\<exists>r. fst (submit proc c answer part w) = Inr r \<and> r \<noteq> PASSED
                   \<and> py_in (ascii ''41'') r \<and> py_in (ascii ''42'') r)))"
proof -
  assume t: "TEST_MODE proc"
  have 1: "submit proc c answer part w =
       (Inr (if str answer = str_opt (test_expected_answer proc) then PASSED
             else FAILED (str answer) (test_expected_answer proc)),
        w\<lparr>trace := trace w @ [EvLog INFO]\<rparr>)"
    using t by (simp add: submit_def Let_def logger_def emit_def)
  have 2: "PASSED = 0x2705 # ascii '' PASSED''"
    by (simp add: PASSED_def CHECK_MARK_def)
  have 3: "py_in (ascii ''41'') (FAILED (ascii ''41'') (Some (ascii ''42'')))"
    unfolding FAILED_def quoted_def py_in_iff by (metis append_Cons append_Nil append_assoc)
  have 4: "py_in (ascii ''42'') (FAILED (ascii ''41'') (Some (ascii ''42'')))"
    by (simp add: FAILED_def quoted_def ascii_def CROSS_MARK_def)
  have 5: "FAILED (ascii ''41'') (Some (ascii ''42'')) \<noteq> PASSED"
    by (simp add: FAILED_def PASSED_def CROSS_MARK_def CHECK_MARK_def)
  have 6: "ascii ''41'' \<noteq> ascii ''42''" by (simp add: ascii_def)
  show ?thesis using 1 2 3 4 5 6 by simp
qed

theorem submit_test_mode_witness:
  "TEST_MODE (test_proc (Some (ascii ''42'')))
   \<and> test_expected_answer (test_proc (Some (ascii ''42''))) = Some (ascii ''42'')
   \<and> str (PyInt 42) = ascii ''42'' \<and> str (PyStr (ascii ''41'')) = ascii ''41''
   \<and> fst (submit (test_proc (Some (ascii ''42''))) c0 (PyInt 42) 1 w0) = Inr PASSED
   \<and> snd (submit (test_proc (Some (ascii ''42''))) c0 (PyInt 42) 1 w0) = w0\<lparr>trace := [EvLog INFO]\<rparr>
   \<and> (\<exists>r. fst (submit (test_proc (Some (ascii ''42''))) c0 (PyStr (ascii ''41'')) 1 w0) = Inr r \<and> r \<noteq> PASSED
                   \<and> py_in (ascii ''41'') r \<and> py_in (ascii ''42'') r)"
proof -
  have h: "TEST_MODE (test_proc (Some (ascii ''42'')))" by (simp add: test_proc_def)
  have e: "test_expected_answer (test_proc (Some (ascii ''42''))) = Some (ascii ''42'')"
    by (simp add: test_proc_def)
  have s1: "str (PyInt 42) = ascii ''42''"
    by (simp add: str_int_def str_nat.simps ascii_def)
  have s2: "str (PyStr (ascii ''41'')) = ascii ''41''" by simp
  have t0: "trace w0 = []" by (simp add: w0_def)
  have ne: "ascii ''41'' \<noteq> ascii ''42''" by (simp add: ascii_def)
  note A = submit_test_mode [OF h, where answer = "PyInt 42" and c = c0 and part = 1 and w = w0]
  note B = submit_test_mode [OF h, where answer = "PyStr (ascii ''41'')" and c = c0 and part = 1 and w = w0]
  from A e s1 have a1: "fst (submit (test_proc (Some (ascii ''42''))) c0 (PyInt 42) 1 w0) = Inr PASSED"
    by blast
  from A e s1 t0 have a2: "snd (submit (test_proc (Some (ascii ''42''))) c0 (PyInt 42) 1 w0) = w0\<lparr>trace := [EvLog INFO]\<rparr>"
    by simp
  from B e s2 have b1: "\<exists>r. fst (submit (test_proc (Some (ascii ''42''))) c0 (PyStr (ascii ''41'')) 1 w0) = Inr r \<and> r \<noteq> PASSED
                   \<and> py_in (ascii ''41'') r \<and> py_in (ascii ''42'') r"
    by blast
  show ?thesis using h e s1 s2 a1 a2 b1 by blast
qed

text \<open>
  Claim C10. In Test Mode with no expected answer configured, the expected string is
  \<^verbatim>\<open>str(None)\<close>, that is \<^verbatim>\<open>"None"\<close>: for every part, \<^verbatim>\<open>submit\<close> returns the PASSED message
  exactly when \<^verbatim>\<open>str(answer)\<close> is \<^verbatim>\<open>"None"\<close>, and otherwise the FAILED message, which names
  the expected value as \<^verbatim>\<open>'None'\<close>.
\<close>

theorem submit_test_mode_unset:
  "TEST_MODE proc \<Longrightarrow> test_expected_answer proc = None \<Longrightarrow>
     (fst (submit proc c answer part w) = Inr PASSED \<longleftrightarrow> str answer = ascii ''None'')
     \<and> (str answer \<noteq> ascii ''None'' \<longrightarrow>
          fst (submit proc c answer part w) =
            Inr (CROSS_MARK @ ascii '' FAILED: Got '' @ quoted (str answer)
                   @ ascii '', but expected '' @ quoted (ascii ''None''))
          \<and> (\<exists>r. fst (submit proc c answer part w) = Inr r \<and> py_in (quoted (ascii ''None'')) r))"
proof -
  assume t: "TEST_MODE proc" and n: "test_expected_answer proc = None"
  have 1: "fst (submit proc c answer part w) =
       Inr (if str answer = ascii ''None'' then PASSED else FAILED (str answer) None)"
    using submit_in_test_mode [OF t, of c answer part w] n by simp
  have 2: "FAILED (str answer) None =
       CROSS_MARK @ ascii '' FAILED: Got '' @ quoted (str answer)
         @ ascii '', but expected '' @ quoted (ascii ''None'')"
    by (simp add: FAILED_def)
  have 3: "py_in (quoted (ascii ''None'')) (FAILED (str answer) None)"
    unfolding 2 py_in_iff by (metis append_Nil2 append_assoc)
  show ?thesis using 1 2 3 FAILED_neq_PASSED by auto
qed

theorem submit_test_mode_unset_witness:
  "TEST_MODE (test_proc None) \<and> test_expected_answer (test_proc None) = None
   \<and> str PyNone = ascii ''None'' \<and> str (PyInt 7) \<noteq> ascii ''None''
   \<and> fst (submit (test_proc None) c0 PyNone 2 w0) = Inr PASSED
   \<and> fst (submit (test_proc None) c0 (PyInt 7) 2 w0) =
        Inr (CROSS_MARK @ ascii '' FAILED: Got '' @ quoted (ascii ''7'')
               @ ascii '', but expected '' @ quoted (ascii ''None''))"
proof -
  have h: "TEST_MODE (test_proc None)" and e: "test_expected_answer (test_proc None) = None"
    by (simp_all add: test_proc_def)
  have s1: "str PyNone = ascii ''None''" by simp
  have s7: "str (PyInt 7) = ascii ''7''" by (simp add: str_int_def str_nat.simps ascii_def)
  have s2: "str (PyInt 7) \<noteq> ascii ''None''" unfolding s7 by (simp add: ascii_def)
  note A = submit_test_mode_unset [OF h e, where answer = PyNone and c = c0 and part = 2 and w = w0]
  note B = submit_test_mode_unset [OF h e, where answer = "PyInt 7" and c = c0 and part = 2 and w = w0]
  from A s1 have a: "fst (submit (test_proc None) c0 PyNone 2 w0) = Inr PASSED" by blast
  from B s2 have b: "fst (submit (test_proc None) c0 (PyInt 7) 2 w0) =
        Inr (CROSS_MARK @ ascii '' FAILED: Got '' @ quoted (str (PyInt 7))
               @ ascii '', but expected '' @ quoted (ascii ''None''))" by blast
  show ?thesis using h e s1 s2 a b unfolding s7 by blast
qed


section \<open>Invalid part\<close>

text \<open>
  Claim C9. With Test Mode off and a part other than 1 and 2, \<^verbatim>\<open>submit\<close> returns the
  error string and does not raise; the world is unchanged but for one logger record at
  level ERROR, so there is no gateway call and the Progress Store is neither read nor
  written.
\<close>

theorem submit_invalid_part:
  "\<not> TEST_MODE proc \<Longrightarrow> part \<noteq> 1 \<Longrightarrow> part \<noteq> 2 \<Longrightarrow>
     submit proc c answer part w = (Inr err_msg, w\<lparr>trace := trace w @ [EvLog ERROR]\<rparr>)"
  by (simp add: submit_def logger_def emit_def)

theorem submit_invalid_part_witness:
  "\<not> TEST_MODE live_proc \<and> (3::int) \<noteq> 1 \<and> (3::int) \<noteq> 2
   \<and> submit live_proc c0 (PyInt 7) 3 w0 =
        (Inr (ascii ''The 'part' argument for submit() must be 1 or 2.''),
         w0\<lparr>trace := [EvLog ERROR]\<rparr>)"
proof -
  have h: "\<not> TEST_MODE live_proc" by (simp add: live_proc_def)
  have t0: "trace w0 = []" by (simp add: w0_def)
  show ?thesis
    using submit_invalid_part [OF h, where part = 3 and c = c0 and answer = "PyInt 7" and w = w0] h t0
    by (simp add: err_msg_def)
qed


section \<open>Context\<close>

text \<open>
  Claim C6. Context determination: when the Context Store holds a pair, the resolved
  context is that pair, whatever the oracle says; when it holds none, the resolved
  context is the oracle's latest puzzle date.
\<close>

theorem context_determination_resolves:
  "(read_context w = Some (y, d) \<longrightarrow> fst (context_determination c w) = (y, d))
   \<and> (read_context w = None \<longrightarrow> fst (context_determination c w) = get_latest_puzzle_date c)"
  by (simp add: context_determination_def)

theorem context_determination_resolves_witness:
  "read_context (w0\<lparr>context_file := Some (2019, 7)\<rparr>) = Some (2019, 7)
   \<and> fst (context_determination c0 (w0\<lparr>context_file := Some (2019, 7)\<rparr>)) = (2019, 7)
   \<and> read_context w0 = None
   \<and> fst (context_determination c0 w0) = (2024, 5)"
proof -
  have a: "read_context (w0\<lparr>context_file := Some (2019, 7)\<rparr>) = Some (2019, 7)"
    by (simp add: read_context_def)
  have b: "read_context w0 = None" by (simp add: read_context_def w0_def)
  have l: "get_latest_puzzle_date c0 = (2024, 5)" by (simp add: c0_def)
  show ?thesis
    using context_determination_resolves [of "w0\<lparr>context_file := Some (2019, 7)\<rparr>" 2019 7 c0]
          context_determination_resolves [of w0 0 0 c0] a b l
    by simp
qed


text \<open>
  Claim C5. \<^verbatim>\<open>context set\<close> aborts, without writing the context (the world changes by
  terminal output only), when the year is below 2015 or above the latest year, when the
  day is outside 1 to 25, and when the year is the latest year and the day is after the
  latest day. For every other pair it returns normally and saves the pair, so that a
  later context determination, with any oracle, resolves to it.
\<close>

theorem context_set_validates:
  "get_latest_puzzle_date c = (latest_year, latest_day) \<Longrightarrow>
     (y < 2015 \<or> y > latest_year \<or> d < 1 \<or> d > 25 \<or> (y = latest_year \<and> d > latest_day) \<longrightarrow>
        fst (context_set c y d w) = Inl Abort
        \<and> (\<exists>msgs. snd (context_set c y d w) = w\<lparr>trace := trace w @ map EvEcho msgs\<rparr>))
     \<and> (\<not> (y < 2015 \<or> y > latest_year \<or> d < 1 \<or> d > 25 \<or> (y = latest_year \<and> d > latest_day)) \<longrightarrow>
        fst (context_set c y d w) = Inr ()
        \<and> read_context (snd (context_set c y d w)) = Some (y, d)
        \<and> (\<forall>c'. fst (context_determination c' (snd (context_set c y d w))) = (y, d)))"
proof -
  assume l: "get_latest_puzzle_date c = (latest_year, latest_day)"
  show ?thesis
  proof (cases "y < 2015 \<or> y > latest_year \<or> d < 1 \<or> d > 25 \<or> (y = latest_year \<and> d > latest_day)")
    case True
    have a: "fst (context_set c y d w) = Inl Abort"
      using True l by (auto simp: context_set_def)
    have b: "\<exists>msgs. snd (context_set c y d w) = w\<lparr>trace := trace w @ map EvEcho msgs\<rparr>"
    proof (cases "\<not> (2015 \<le> y \<and> y \<le> latest_year)")
      case True
      then have "snd (context_set c y d w) = w\<lparr>trace := trace w @ map EvEcho
           [ascii ''Error: Year must be between 2015 and '' @ str_int latest_year @ ascii ''.'']\<rparr>"
        using l by (simp add: context_set_def emit_def)
      then show ?thesis by (rule exI)
    next
      case y: False
      show ?thesis
      proof (cases "\<not> (1 \<le> d \<and> d \<le> 25)")
        case True
        then have "snd (context_set c y d w) = w\<lparr>trace := trace w @ map EvEcho
           [ascii ''Error: Day must be between 1 and 25.'']\<rparr>"
          using l y by (simp add: context_set_def emit_def)
        then show ?thesis by (rule exI)
      next
        case dd: False
        with y True have "y = latest_year \<and> d > latest_day" by auto
        then have "snd (context_set c y d w) = w\<lparr>trace := trace w @ map EvEcho
           [ascii ''Error: Puzzle for '' @ str_int y @ ascii ''-'' @ fmt_02d d
                           @ ascii '' is not yet available.'',
            ascii ''The latest available puzzle is '' @ str_int latest_year
                        @ ascii ''-'' @ fmt_02d latest_day @ ascii ''.'']\<rparr>"
          using l y dd by (simp add: context_set_def emit_def)
        then show ?thesis by (rule exI)
      qed
    qed
    show ?thesis using True a b by blast
  next
    case False
    then have s: "context_set c y d w =
        (Inr (), emit (EvEcho (CHECK_MARK @ ascii '' Context set to Year '' @ str_int y
                        @ ascii '', Day '' @ str_int d @ ascii ''.'')) (write_context y d w))"
      using l by (auto simp: context_set_def)
    have r: "read_context (snd (context_set c y d w)) = Some (y, d)"
      unfolding s by (simp add: read_context_def emit_def write_context_def)
    have f: "fst (context_set c y d w) = Inr ()" unfolding s by simp
    have "\<forall>c'. fst (context_determination c' (snd (context_set c y d w))) = (y, d)"
      using r by (simp add: context_determination_def)
    then show ?thesis using False f r by blast
  qed
qed

theorem context_set_validates_witness:
  "get_latest_puzzle_date c0 = (2024, 5)
   \<and> fst (context_set c0 2014 1 w0) = Inl Abort \<and> read_context (snd (context_set c0 2014 1 w0)) = None
   \<and> fst (context_set c0 2025 1 w0) = Inl Abort \<and> read_context (snd (context_set c0 2025 1 w0)) = None
   \<and> fst (context_set c0 2020 0 w0) = Inl Abort \<and> read_context (snd (context_set c0 2020 0 w0)) = None
   \<and> fst (context_set c0 2020 26 w0) = Inl Abort \<and> read_context (snd (context_set c0 2020 26 w0)) = None
   \<and> fst (context_set c0 2024 6 w0) = Inl Abort \<and> read_context (snd (context_set c0 2024 6 w0)) = None
   \<and> fst (context_set c0 2024 5 w0) = Inr ()
   \<and> read_context (snd (context_set c0 2024 5 w0)) = Some (2024, 5)
   \<and> fst (context_determination c0 (snd (context_set c0 2024 5 w0))) = (2024, 5)
   \<and> fst (context_set c0 2015 25 w0) = Inr ()
   \<and> fst (context_determination c0 (snd (context_set c0 2015 25 w0))) = (2015, 25)"
proof -
  have l: "get_latest_puzzle_date c0 = (2024, 5)" by (simp add: c0_def)
  have n: "\<And>t. read_context (w0\<lparr>trace := t\<rparr>) = None" by (simp add: read_context_def w0_def)
  note T = context_set_validates [OF l, where w = w0]
  have 1: "fst (context_set c0 2014 1 w0) = Inl Abort \<and> read_context (snd (context_set c0 2014 1 w0)) = None"
    using T [of 2014 1] n by auto
  have 2: "fst (context_set c0 2025 1 w0) = Inl Abort \<and> read_context (snd (context_set c0 2025 1 w0)) = None"
    using T [of 2025 1] n by auto
  have 3: "fst (context_set c0 2020 0 w0) = Inl Abort \<and> read_context (snd (context_set c0 2020 0 w0)) = None"
    using T [of 2020 0] n by auto
  have 4: "fst (context_set c0 2020 26 w0) = Inl Abort \<and> read_context (snd (context_set c0 2020 26 w0)) = None"
    using T [of 2020 26] n by auto
  have 5: "fst (context_set c0 2024 6 w0) = Inl Abort \<and> read_context (snd (context_set c0 2024 6 w0)) = None"
    using T [of 2024 6] n by auto
  have 6: "fst (context_set c0 2024 5 w0) = Inr ()
   \<and> read_context (snd (context_set c0 2024 5 w0)) = Some (2024, 5)
   \<and> fst (context_determination c0 (snd (context_set c0 2024 5 w0))) = (2024, 5)"
    using T [of 2024 5] by simp
  have 7: "fst (context_set c0 2015 25 w0) = Inr ()
   \<and> fst (context_determination c0 (snd (context_set c0 2015 25 w0))) = (2015, 25)"
    using T [of 2015 25] by simp
  show ?thesis using l 1 2 3 4 5 6 7 by blast
qed

section \<open>Already solved: verification without a live submission\<close>

text \<open>
  Claim C1, as stated, says that every call with Test Mode off and a recorded star count
  of at least \<open>part\<close> returns success. It does not: with part 1 of the day recorded
  as solved and the scraped answer \<^verbatim>\<open>"42"\<close>, the answer \<^verbatim>\<open>"41"\<close> gets the failure message, which
  is not the success message.
\<close>

theorem submit_already_solved_counterexample:
  "\<not> TEST_MODE live_proc
   \<and> 1 \<le> stars_for (progress_file w_solved) (str_int (year live_proc)) (str_int (day live_proc))
   \<and> fst (submit live_proc c0 (PyStr (ascii ''41'')) 1 w_solved)
       = Inr (CROSS_MARK @ ascii '' Your answer '41' is incorrect. The correct answer was '42'.'')
   \<and> fst (submit live_proc c0 (PyStr (ascii ''41'')) 1 w_solved)
       \<noteq> Inr (msg_correct (str (PyStr (ascii ''41''))))"
proof -
  have t: "\<not> TEST_MODE live_proc" by (simp add: live_proc_simps)
  have s: "1 \<le> stars_for (progress_file w_solved) (str_int (year live_proc)) (str_int (day live_proc))"
    by (simp add: live_proc_simps str_int_examples stars_w_solved)
  have r: "fst (submit live_proc c0 (PyStr (ascii ''41'')) 1 w_solved)
       = Inr (msg_incorrect (ascii ''41'') (ascii ''42''))"
    unfolding submit_verify [OF t _ s, of c0 "PyStr (ascii ''41'')", simplified]
    by (simp add: live_proc_simps c0_simps ascii_def)
  have m: "msg_incorrect (ascii ''41'') (ascii ''42'')
      = CROSS_MARK @ ascii '' Your answer '41' is incorrect. The correct answer was '42'.''"
    by (simp add: msg_incorrect_def quoted_def ascii_def)
  have n: "msg_incorrect (ascii ''41'') (ascii ''42'') \<noteq> msg_correct (str (PyStr (ascii ''41'')))"
    by (simp add: msg_incorrect_def msg_correct_def CROSS_MARK_def CHECK_MARK_def)
  show ?thesis using t s r m n by simp
qed

text \<open>
  Claim C1, amended. With Test Mode off and a recorded star count of at least \<open>part\<close>,
  \<^verbatim>\<open>submit\<close> never takes the live path: the world changes by trace events only, and these
  are the read of the Progress Store, the scrape and logger records, so the post-answer
  call is not made and the Progress Store is not written. For part 1 or 2 the result is
  determined by comparing \<^verbatim>\<open>str(answer)\<close> with the scraped answer for the part: the success
  message when they are equal, the failure message naming the correct answer when they
  differ, the warning when the scrape has no answer for the part; an exception of the
  scrape propagates. For any other part the result is the error string.
\<close>

theorem submit_already_solved:
  "\<not> TEST_MODE proc \<Longrightarrow>
   part \<le> stars_for (progress_file w) (str_int (year proc)) (str_int (day proc)) \<Longrightarrow>
     (\<exists>evs. snd (submit proc c answer part w) = w\<lparr>trace := trace w @ evs\<rparr>
            \<and> (\<forall>e\<in>set evs. e = EvReadProgress \<or> e = EvScrape (year proc) (day proc)
                              \<or> (\<exists>l. e = EvLog l)))
     \<and> fst (submit proc c answer part w) =
         (if part \<noteq> 1 \<and> part \<noteq> 2 then Inr err_msg
          else case scrape_day_page_for_answers c (year proc) (day proc) of
                 Inl e \<Rightarrow> Inl e
               | Inr correct_answers \<Rightarrow>
                   (case correct_answers part of
                      None \<Rightarrow> Inr msg_unverified
                    | Some known \<Rightarrow>
                        if str answer = known then Inr (msg_correct (str answer))
                        else Inr (msg_incorrect (str answer) known)))"
proof -
  assume t: "\<not> TEST_MODE proc"
    and s: "part \<le> stars_for (progress_file w) (str_int (year proc)) (str_int (day proc))"
  show ?thesis
  proof (cases "part \<noteq> 1 \<and> part \<noteq> 2")
    case True
    then have e: "submit proc c answer part w = (Inr err_msg, w\<lparr>trace := trace w @ [EvLog ERROR]\<rparr>)"
      using t by (simp add: submit_def logger_def emit_def)
    have "snd (submit proc c answer part w) = w\<lparr>trace := trace w @ [EvLog ERROR]\<rparr>
            \<and> (\<forall>e\<in>set [EvLog ERROR]. e = EvReadProgress \<or> e = EvScrape (year proc) (day proc)
                              \<or> (\<exists>l. e = EvLog l))"
      unfolding e by simp
    then have "\<exists>evs. snd (submit proc c answer part w) = w\<lparr>trace := trace w @ evs\<rparr>
            \<and> (\<forall>e\<in>set evs. e = EvReadProgress \<or> e = EvScrape (year proc) (day proc)
                              \<or> (\<exists>l. e = EvLog l))"
      by (rule exI)
    then show ?thesis using True e by simp
  next
    case False
    then have v: "part = 1 \<or> part = 2" by auto
    note sv = submit_verify [OF t v s, of c answer]
    have f: "fst (submit proc c answer part w) =
          (case scrape_day_page_for_answers c (year proc) (day proc) of
                 Inl e \<Rightarrow> Inl e
               | Inr correct_answers \<Rightarrow>
                   (case correct_answers part of
                      None \<Rightarrow> Inr msg_unverified
                    | Some known \<Rightarrow>
                        if str answer = known then Inr (msg_correct (str answer))
                        else Inr (msg_incorrect (str answer) known)))"
      unfolding sv by (simp split: sum.splits option.splits)
    have "\<exists>lv. snd (submit proc c answer part w) =
         w\<lparr>trace := trace w @ ([EvReadProgress, EvLog INFO, EvScrape (year proc) (day proc)] @ map EvLog lv)\<rparr>"
    proof (cases "scrape_day_page_for_answers c (year proc) (day proc)")
      case (Inl e)
      then have "snd (submit proc c answer part w) =
         w\<lparr>trace := trace w @ ([EvReadProgress, EvLog INFO, EvScrape (year proc) (day proc)] @ map EvLog [])\<rparr>"
        unfolding sv by simp
      then show ?thesis by (rule exI)
    next
      case (Inr correct_answers)
      show ?thesis
      proof (cases "correct_answers part")
        case None
        with Inr have "snd (submit proc c answer part w) =
         w\<lparr>trace := trace w @ ([EvReadProgress, EvLog INFO, EvScrape (year proc) (day proc)] @ map EvLog [WARNING])\<rparr>"
          unfolding sv by simp
        then show ?thesis by (rule exI)
      next
        case (Some known)
        show ?thesis
        proof (cases "str answer = known")
          case True
          with Inr Some have "snd (submit proc c answer part w) =
         w\<lparr>trace := trace w @ ([EvReadProgress, EvLog INFO, EvScrape (year proc) (day proc)] @ map EvLog [INFO])\<rparr>"
            unfolding sv by simp
          then show ?thesis by (rule exI)
        next
          case False
          with Inr Some have "snd (submit proc c answer part w) =
         w\<lparr>trace := trace w @ ([EvReadProgress, EvLog INFO, EvScrape (year proc) (day proc)] @ map EvLog [WARNING])\<rparr>"
            unfolding sv by simp
          then show ?thesis by (rule exI)
        qed
      qed
    qed
    then obtain lv where lv: "snd (submit proc c answer part w) =
         w\<lparr>trace := trace w @ ([EvReadProgress, EvLog INFO, EvScrape (year proc) (day proc)] @ map EvLog lv)\<rparr>"
      by blast
    have "\<forall>e\<in>set ([EvReadProgress, EvLog INFO, EvScrape (year proc) (day proc)] @ map EvLog lv).
             e = EvReadProgress \<or> e = EvScrape (year proc) (day proc) \<or> (\<exists>l. e = EvLog l)"
      by auto
    with lv have "\<exists>evs. snd (submit proc c answer part w) = w\<lparr>trace := trace w @ evs\<rparr>
            \<and> (\<forall>e\<in>set evs. e = EvReadProgress \<or> e = EvScrape (year proc) (day proc)
                              \<or> (\<exists>l. e = EvLog l))"
      by blast
    then show ?thesis using v f by auto
  qed
qed

text \<open>
  The amended claim at a concrete input: the right answer gets the success message, a
  wrong one the failure message, and the Progress Store is as before.
\<close>

theorem submit_already_solved_witness:
  "\<not> TEST_MODE live_proc
   \<and> 1 \<le> stars_for (progress_file w_solved) (str_int (year live_proc)) (str_int (day live_proc))
   \<and> fst (submit live_proc c0 (PyInt 42) 1 w_solved) = Inr (msg_correct (ascii ''42''))
   \<and> fst (submit live_proc c0 (PyInt 7) 1 w_solved) = Inr (msg_incorrect (ascii ''7'') (ascii ''42''))
   \<and> progress_file (snd (submit live_proc c0 (PyInt 42) 1 w_solved)) = progress_file w_solved"
proof -
  have t: "\<not> TEST_MODE live_proc" by (simp add: live_proc_simps)
  have s: "1 \<le> stars_for (progress_file w_solved) (str_int (year live_proc)) (str_int (day live_proc))"
    by (simp add: live_proc_simps str_int_examples stars_w_solved)
  note A = submit_already_solved [OF t s, where c = c0 and answer = "PyInt 42"]
  note B = submit_already_solved [OF t s, where c = c0 and answer = "PyInt 7"]
  have ne: "ascii ''7'' \<noteq> ascii ''42''" by (simp add: ascii_def)
  have a: "fst (submit live_proc c0 (PyInt 42) 1 w_solved) = Inr (msg_correct (ascii ''42''))"
    using A by (simp add: c0_simps str_int_examples)
  have b: "fst (submit live_proc c0 (PyInt 7) 1 w_solved) = Inr (msg_incorrect (ascii ''7'') (ascii ''42''))"
    using B ne by (simp add: c0_simps str_int_examples)
  from A obtain evs where "snd (submit live_proc c0 (PyInt 42) 1 w_solved) = w_solved\<lparr>trace := trace w_solved @ evs\<rparr>"
    by blast
  then have c: "progress_file (snd (submit live_proc c0 (PyInt 42) 1 w_solved)) = progress_file w_solved"
    by simp
  show ?thesis using t s a b c by blast
qed

section \<open>Star counts never decrease\<close>

text \<open>
  Claim C2. Over every sequence of \<^verbatim>\<open>submit\<close> calls, with any process values, parts, answers
  and collaborators' responses, the star count recorded for any year and day never
  decreases from one point of the sequence to a later one. In one call, the Progress
  Store is either left as it was, or (with part 1 or 2) the entry of the call's year and
  day is set to the maximum of its current value and the part.
\<close>

theorem stars_never_decrease:
  "stars_for (progress_file (submits calls1 w)) ys ds
     \<le> stars_for (progress_file (submits (calls1 @ calls2) w)) ys ds
   \<and> (progress_file (snd (submit proc c answer part w)) = progress_file w
      \<or> ((part = 1 \<or> part = 2)
          \<and> progress_file (snd (submit proc c answer part w)) =
              set_stars (progress_file w) (str_int (year proc)) (str_int (day proc))
                (max (stars_for (progress_file w) (str_int (year proc)) (str_int (day proc))) part)))
   \<and> stars_for (set_stars pd ys' ds' (max (stars_for pd ys' ds') part)) ys' ds'
       = max (stars_for pd ys' ds') part"
  using submits_stars_mono [of "submits calls1 w" ys ds calls2] submit_progress
  by (simp add: stars_for_set_stars submits_append)

text \<open>
  Three calls on a world with one star recorded for day 3 of 2024: the count is at least
  one after the first call, and after all three it is at least what it was after the
  first.
\<close>

theorem stars_never_decrease_witness:
  "stars_for (progress_file w_solved) (ascii ''2024'') (ascii ''3'') = 1
   \<and> 1 \<le> stars_for (progress_file (submits [(live_proc, c_level, PyInt 7, 2)] w_solved))
            (ascii ''2024'') (ascii ''3'')
   \<and> stars_for (progress_file (submits [(live_proc, c_level, PyInt 7, 2)] w_solved))
         (ascii ''2024'') (ascii ''3'')
       \<le> stars_for (progress_file (submits
            ([(live_proc, c_level, PyInt 7, 2)]
             @ [(live_proc, c0, PyInt 7, 1), (test_proc None, c0, PyNone, 5)]) w_solved))
            (ascii ''2024'') (ascii ''3'')"
  using stars_never_decrease [of "[]" w_solved "ascii ''2024''" "ascii ''3''"
      "[(live_proc, c_level, PyInt 7, 2)]"]
    stars_never_decrease [of "[(live_proc, c_level, PyInt 7, 2)]" w_solved "ascii ''2024''" "ascii ''3''"
      "[(live_proc, c0, PyInt 7, 1), (test_proc None, c0, PyNone, 5)]"]
    stars_w_solved
  by simp


section \<open>The server says the part was already completed\<close>

text \<open>
  Claim C3, as stated, covers every response that contains the wrong-level phrase. The
  phrases are checked in order, so a response that also contains the right-answer phrase is
  classified as correct: \<^verbatim>\<open>bind\<close> is called and the returned message is not the
  already-completed one.
\<close>

theorem submit_wrong_level_counterexample:
  "\<not> TEST_MODE live_proc
   \<and> stars_for (progress_file w0) (str_int (year live_proc)) (str_int (day live_proc)) < 1
   \<and> post_answer c_both (year live_proc) (day live_proc) 1 (PyInt 7) = Inr both_phrases
   \<and> py_in WRONG_LEVEL both_phrases
   \<and> EvCallBind 1 False \<in> set (trace (snd (submit live_proc c_both (PyInt 7) 1 w0)))
   \<and> fst (submit live_proc c_both (PyInt 7) 1 w0) = Inr (CHECK_MARK @ ascii '' '' @ both_phrases)
   \<and> fst (submit live_proc c_both (PyInt 7) 1 w0) \<noteq> Inr (msg_already_completed 1)"
proof -
  have t: "\<not> TEST_MODE live_proc" by (simp add: live_proc_simps)
  have s: "stars_for (progress_file w0) (str_int (year live_proc)) (str_int (day live_proc)) < 1"
    by (simp add: stars_w0)
  have p: "post_answer c_both (year live_proc) (day live_proc) 1 (PyInt 7) = Inr both_phrases"
    by (simp add: c_both_def)
  have ab: "get_bool_config_setting c_both (ascii ''auto_bind'') (Some True)"
    by (simp add: c_both_def c0_def)
  have nf: "files w0 NOTEPAD_PATH = None"
    by (simp add: w0_def)
  have sub: "submit live_proc c_both (PyInt 7) 1 w0 =
      (Inr (CHECK_MARK @ ascii '' '' @ both_phrases),
       logger ERROR (logger INFO (emit (EvCallBind 1 False)
         (w0\<lparr>progress_file := set_stars (progress_file w0) (str_int (year live_proc)) (str_int (day live_proc)) 1,
              trace := trace w0 @ [EvReadProgress, EvPostAnswer (year live_proc) (day live_proc) 1 (PyInt 7),
                 EvLog INFO,
                 EvWriteProgress (set_stars (progress_file w0) (str_int (year live_proc)) (str_int (day live_proc)) 1),
                 EvLog INFO]\<rparr>))))"
    unfolding submit_post [OF t _ s, of c_both "PyInt 7", simplified] Let_def p
    by (simp add: py_in_both ab bind_valid_part nf and_then_def path_exists_def c_both_def c0_def)
  have n: "CHECK_MARK @ ascii '' '' @ both_phrases \<noteq> msg_already_completed 1"
    by (simp add: msg_already_completed_def CHECK_MARK_def both_phrases_def RIGHT_ANSWER_def ascii_def)
  show ?thesis using t s p py_in_both(2) n unfolding sub by simp
qed

text \<open>
  Claim C3, amended. With Test Mode off, part 1 or 2, a recorded star count below the
  part, and a gateway response that contains the wrong-level phrase and does not contain
  the right-answer phrase, \<^verbatim>\<open>submit\<close> returns the already-completed message; the entry of
  the year and day becomes the maximum of its current value and the part; the events of
  the call are the read, the post, one logger record and one write of the Progress
  Store, so the store is persisted exactly once and \<^verbatim>\<open>bind\<close> is not called.
\<close>

theorem submit_wrong_level:
  "\<not> TEST_MODE proc \<Longrightarrow> part = 1 \<or> part = 2 \<Longrightarrow>
   stars_for (progress_file w) (str_int (year proc)) (str_int (day proc)) < part \<Longrightarrow>
   post_answer c (year proc) (day proc) part answer = Inr response_text \<Longrightarrow>
   py_in WRONG_LEVEL response_text \<Longrightarrow> \<not> py_in RIGHT_ANSWER response_text \<Longrightarrow>
     submit proc c answer part w =
       (Inr (msg_already_completed part),
        w\<lparr>progress_file :=
             set_stars (progress_file w) (str_int (year proc)) (str_int (day proc))
               (max (stars_for (progress_file w) (str_int (year proc)) (str_int (day proc))) part),
          trace := trace w @
            [EvReadProgress, EvPostAnswer (year proc) (day proc) part answer, EvLog WARNING,
             EvWriteProgress
               (set_stars (progress_file w) (str_int (year proc)) (str_int (day proc))
                  (max (stars_for (progress_file w) (str_int (year proc)) (str_int (day proc))) part))]\<rparr>)
     \<and> stars_for (progress_file (snd (submit proc c answer part w)))
           (str_int (year proc)) (str_int (day proc))
         = max (stars_for (progress_file w) (str_int (year proc)) (str_int (day proc))) part"
proof -
  assume t: "\<not> TEST_MODE proc" and v: "part = 1 \<or> part = 2"
    and lt: "stars_for (progress_file w) (str_int (year proc)) (str_int (day proc)) < part"
    and p: "post_answer c (year proc) (day proc) part answer = Inr response_text"
    and l: "py_in WRONG_LEVEL response_text" and r: "\<not> py_in RIGHT_ANSWER response_text"
  have mx: "max (stars_for (progress_file w) (str_int (year proc)) (str_int (day proc))) part = part"
    using lt by simp
  have 1: "submit proc c answer part w =
       (Inr (msg_already_completed part),
        w\<lparr>progress_file := set_stars (progress_file w) (str_int (year proc)) (str_int (day proc)) part,
          trace := trace w @
            [EvReadProgress, EvPostAnswer (year proc) (day proc) part answer, EvLog WARNING,
             EvWriteProgress
               (set_stars (progress_file w) (str_int (year proc)) (str_int (day proc)) part)]\<rparr>)"
    unfolding submit_post [OF t v lt] Let_def p using l r by simp
  show ?thesis unfolding mx unfolding 1 by (simp add: stars_for_set_stars)
qed

text \<open>
  The amended claim at a concrete input: one star recorded, part 2.
\<close>

theorem submit_wrong_level_witness:
  "\<not> TEST_MODE live_proc \<and> ((2::int) = 1 \<or> (2::int) = 2)
   \<and> stars_for (progress_file w_solved) (str_int (year live_proc)) (str_int (day live_proc)) < 2
   \<and> post_answer c_level (year live_proc) (day live_proc) 2 (PyInt 7) = Inr (WRONG_LEVEL @ ascii ''.'')
   \<and> py_in WRONG_LEVEL (WRONG_LEVEL @ ascii ''.'')
   \<and> \<not> py_in RIGHT_ANSWER (WRONG_LEVEL @ ascii ''.'')
   \<and> fst (submit live_proc c_level (PyInt 7) 2 w_solved) = Inr (msg_already_completed 2)
   \<and> stars_for (progress_file (snd (submit live_proc c_level (PyInt 7) 2 w_solved)))
        (str_int (year live_proc)) (str_int (day live_proc)) = 2
   \<and> trace (snd (submit live_proc c_level (PyInt 7) 2 w_solved)) =
        [EvReadProgress, EvPostAnswer 2024 3 2 (PyInt 7), EvLog WARNING,
         EvWriteProgress (set_stars (progress_file w_solved) (ascii ''2024'') (ascii ''3'') 2)]"
proof -
  have t: "\<not> TEST_MODE live_proc" by (simp add: live_proc_simps)
  have v: "(2::int) = 1 \<or> (2::int) = 2" by simp
  have s: "stars_for (progress_file w_solved) (str_int (year live_proc)) (str_int (day live_proc)) < 2"
    by (simp add: live_proc_simps str_int_examples stars_w_solved)
  have p: "post_answer c_level (year live_proc) (day live_proc) 2 (PyInt 7) = Inr (WRONG_LEVEL @ ascii ''.'')"
    by (simp add: c_level_def)
  have l: "py_in WRONG_LEVEL (WRONG_LEVEL @ ascii ''.'')"
    unfolding py_in_iff by (metis append_Nil)
  have r: "\<not> py_in RIGHT_ANSWER (WRONG_LEVEL @ ascii ''.'')"
    by (simp add: RIGHT_ANSWER_def WRONG_LEVEL_def ascii_def)
  have t0: "trace w_solved = []" by (simp add: w_solved_def w0_def)
  note A = submit_wrong_level [OF t v s p l r]
  have m: "max (stars_for (progress_file w_solved) (str_int (year live_proc)) (str_int (day live_proc))) 2 = 2"
    using s by simp
  have f: "fst (submit live_proc c_level (PyInt 7) 2 w_solved) = Inr (msg_already_completed 2)"
    using conjunct1 [OF A] by simp
  have g: "stars_for (progress_file (snd (submit live_proc c_level (PyInt 7) 2 w_solved)))
        (str_int (year live_proc)) (str_int (day live_proc)) = 2"
    using conjunct2 [OF A] m by simp
  have h: "trace (snd (submit live_proc c_level (PyInt 7) 2 w_solved)) =
        [EvReadProgress, EvPostAnswer 2024 3 2 (PyInt 7), EvLog WARNING,
         EvWriteProgress (set_stars (progress_file w_solved) (ascii ''2024'') (ascii ''3'') 2)]"
    using conjunct1 [OF A] m t0 by (simp add: live_proc_simps str_int_examples)
  show ?thesis using t v s p l r f g h by blast
qed

section \<open>Archiving\<close>

text \<open>
  Claim C8 says that \<^verbatim>\<open>bind\<close> returns without writing when the destination exists and
  \<open>overwrite\<close> is false. At this input the scratch file and the destination both exist,
  \<open>overwrite\<close> is false, formatting is enabled and \<^verbatim>\<open>subprocess.run\<close> raises
  \<^verbatim>\<open>PermissionError\<close>, which the handler of the formatter step does not catch: \<^verbatim>\<open>bind\<close> does not
  return, it raises \<^verbatim>\<open>PermissionError\<close>. The archived content is unchanged.
\<close>

theorem bind_archive_formatter_failure:
  "files w_archived NOTEPAD_PATH = Some scratch0
   \<and> files w_archived (dest_path live_proc 1) = Some (ascii ''old'')
   \<and> get_bool_config_setting c_perm (ascii ''auto_format_on_bind'') (Some True)
   \<and> ruff_format c_perm (Some scratch0) = Inl PermissionError
   \<and> fst (bind live_proc c_perm 1 False w_archived) = Inl PermissionError
   \<and> files (snd (bind live_proc c_perm 1 False w_archived)) (dest_path live_proc 1) = Some (ascii ''old'')"
proof -
  have n: "files w_archived NOTEPAD_PATH = Some scratch0"
    by (simp add: w_archived_def)
  have d: "files w_archived (dest_path live_proc 1) = Some (ascii ''old'')"
    by (simp add: w_archived_def)
  have af: "get_bool_config_setting c_perm (ascii ''auto_format_on_bind'') (Some True)"
    by (simp add: c_perm_def c_right_def c0_def)
  have f: "ruff_format c_perm (Some scratch0) = Inl PermissionError" by (simp add: c_perm_def)
  have x: "io_fault c_perm (Exists NOTEPAD_PATH) = None"
    by (simp add: c_perm_def c_right_def c0_def)
  have e: "bind_escapes live_proc c_perm 1 w_archived = Some PermissionError"
    using af by (simp add: bind_escapes_def formatter_escapes_def x n f)
  have b: "fst (bind live_proc c_perm 1 False w_archived) = Inl PermissionError"
    by (simp add: bind_outcome e)
  have nn: "files w_archived (dest_path live_proc 1) \<noteq> None" using d by simp
  have g: "files (snd (bind live_proc c_perm 1 False w_archived)) (dest_path live_proc 1)
      = files w_archived (dest_path live_proc 1)"
    using bind_guard [OF nn, of False c_perm] by simp
  show ?thesis using n d af f b g by simp
qed

text \<open>
  What \<^verbatim>\<open>bind\<close> does for every input. First, when the destination file of
  (year, day, part) exists and \<open>overwrite\<close> is false, \<^verbatim>\<open>bind\<close> does not write: every file
  other than the scratch file keeps its content and the events of the call touch no file.
  Second, \<^verbatim>\<open>bind\<close> raises exactly when the part is valid and an exception escapes one of the
  steps that have no handler (\<open>bind_escapes\<close>); it returns otherwise. Third, with a
  valid part, an existing scratch file, \<open>overwrite\<close> true or no destination yet, and no
  failure of the steps before the write, the destination holds the cleaned content of the
  (formatted) scratch file as \<^verbatim>\<open>read_text\<close> delivers it. Fourth, whatever the input, the
  destination is either left as it was or holds the cleaned form of the (formatted)
  scratch file, so every archived copy written by \<^verbatim>\<open>bind\<close> is the cleaned scratch source.
  Fifth, the cleaned form of any text has no line that is purely a call to
  \<^verbatim>\<open>aoc.bind(...)\<close>, and it does not end in white space.
\<close>

proposition bind_archive:
  "(files w (dest_path proc part) \<noteq> None \<and> \<not> ov \<longrightarrow>
      (\<forall>p. p \<noteq> NOTEPAD_PATH \<longrightarrow> files (snd (bind proc c part ov w)) p = files w p)
      \<and> (\<exists>evs. trace (snd (bind proc c part ov w)) = trace w @ evs \<and> list_all silent evs))
   \<and> fst (bind proc c part ov w) =
       (if part = 1 \<or> part = 2
        then (case bind_escapes proc c part w of Some e \<Rightarrow> Inl e | None \<Rightarrow> Inr ())
        else Inr ())
   \<and> ((part = 1 \<or> part = 2) \<and> files w NOTEPAD_PATH = Some scratch
       \<and> bind_escapes proc c part w = None
       \<and> (ov \<or> files w (dest_path proc part) = None)
       \<and> io_fault c (ReadText NOTEPAD_PATH) = None \<and> io_fault c (Mkdir (dest_dir proc)) = None
       \<and> io_fault c (WriteText (dest_path proc part)) = None \<longrightarrow>
      files (snd (bind proc c part ov w)) (dest_path proc part)
        = Some (rstrip (re_sub_bind None (universal_newlines (formatted_scratch c scratch)))))
   \<and> (files (snd (bind proc c part ov w)) (dest_path proc part) = files w (dest_path proc part)
       \<or> (\<exists>source. files w NOTEPAD_PATH = Some source
             \<and> files (snd (bind proc c part ov w)) (dest_path proc part)
                 = Some (rstrip (re_sub_bind None (universal_newlines (formatted_scratch c source))))))
   \<and> (\<forall>l\<in>set (split_nl (rstrip (re_sub_bind None content))). \<not> is_bind_line l)
   \<and> (rstrip (re_sub_bind None content) = []
       \<or> \<not> is_space (last (rstrip (re_sub_bind None content))))"
proof -
  have 1: "files w (dest_path proc part) \<noteq> None \<and> \<not> ov \<longrightarrow>
      (\<forall>p. p \<noteq> NOTEPAD_PATH \<longrightarrow> files (snd (bind proc c part ov w)) p = files w p)
      \<and> (\<exists>evs. trace (snd (bind proc c part ov w)) = trace w @ evs \<and> list_all silent evs)"
    using bind_guard by blast
  have 2: "fst (bind proc c part ov w) =
       (if part = 1 \<or> part = 2
        then (case bind_escapes proc c part w of Some e \<Rightarrow> Inl e | None \<Rightarrow> Inr ())
        else Inr ())"
    by (rule bind_outcome)
  have 3: "(part = 1 \<or> part = 2) \<and> files w NOTEPAD_PATH = Some scratch
       \<and> bind_escapes proc c part w = None
       \<and> (ov \<or> files w (dest_path proc part) = None)
       \<and> io_fault c (ReadText NOTEPAD_PATH) = None \<and> io_fault c (Mkdir (dest_dir proc)) = None
       \<and> io_fault c (WriteText (dest_path proc part)) = None \<longrightarrow>
      files (snd (bind proc c part ov w)) (dest_path proc part)
        = Some (rstrip (re_sub_bind None (universal_newlines (formatted_scratch c scratch))))"
    using bind_archives by blast
  have 4: "files (snd (bind proc c part ov w)) (dest_path proc part) = files w (dest_path proc part)
       \<or> (\<exists>source. files w NOTEPAD_PATH = Some source
             \<and> files (snd (bind proc c part ov w)) (dest_path proc part)
                 = Some (rstrip (re_sub_bind None (universal_newlines (formatted_scratch c source)))))"
    by (rule bind_source)
  have 5: "\<forall>l\<in>set (split_nl (rstrip (re_sub_bind None content))). \<not> is_bind_line l"
    using cleaned_no_bind_line by blast
  have 6: "rstrip (re_sub_bind None content) = []
       \<or> \<not> is_space (last (rstrip (re_sub_bind None content)))"
    by (rule rstrip_trimmed)
  from 1 2 3 4 5 6 show ?thesis by (intro conjI)
qed

text \<open>
  At a concrete input: an archived solution survives \<^verbatim>\<open>bind\<close> without overwrite, \<^verbatim>\<open>bind\<close>
  returning, and is replaced with overwrite; with no archived solution yet, \<^verbatim>\<open>bind\<close>
  without overwrite archives the cleaned scratch file, which keeps its line of code and
  loses the call of \<^verbatim>\<open>aoc.bind\<close>.
\<close>

proposition bind_archive_example:
  "files w_archived (dest_path live_proc 1) \<noteq> None
   \<and> files (snd (bind live_proc c0 1 False w_archived)) (dest_path live_proc 1) = Some (ascii ''old'')
   \<and> fst (bind live_proc c0 1 False w_archived) = Inr ()
   \<and> files (snd (bind live_proc c0 1 True w_archived)) (dest_path live_proc 1) = Some (ascii ''x = 1'')
   \<and> files w_notepad (dest_path live_proc 1) = None
   \<and> files (snd (bind live_proc c0 1 False w_notepad)) (dest_path live_proc 1) = Some (ascii ''x = 1'')
   \<and> ascii ''x = 1'' \<in> set (split_nl (rstrip (re_sub_bind None scratch0)))
   \<and> \<not> is_bind_line (ascii ''x = 1'')
   \<and> \<not> is_space (last (rstrip (re_sub_bind None scratch0)))"
proof -
  have d: "files w_archived (dest_path live_proc 1) = Some (ascii ''old'')"
    by (simp add: w_archived_def)
  have n: "files w_archived NOTEPAD_PATH = Some scratch0"
    by (simp add: w_archived_def)
  have nn: "files w_archived (dest_path live_proc 1) \<noteq> None" using d by simp
  have a1: "files (snd (bind live_proc c0 1 False w_archived)) (dest_path live_proc 1) = Some (ascii ''old'')"
    using bind_guard [OF nn, of False c0] d by simp
  have a2: "fst (bind live_proc c0 1 False w_archived) = Inr ()"
    by (simp add: bind_outcome c0_escapes)
  have b1: "files (snd (bind live_proc c0 1 True w_archived)) (dest_path live_proc 1) = Some (ascii ''x = 1'')"
    using bind_archives [where proc = live_proc and c = c0 and part = 1 and ov = True
        and w = w_archived and scratch = scratch0] n
    by (simp add: c0_escapes c0_simps c0_formatted universal_newlines_scratch0 cleaned_scratch0)
  have d0: "files w_notepad (dest_path live_proc 1) = None" by (simp add: w_notepad_def)
  have n0: "files w_notepad NOTEPAD_PATH = Some scratch0" by (simp add: w_notepad_def)
  have c1: "files (snd (bind live_proc c0 1 False w_notepad)) (dest_path live_proc 1) = Some (ascii ''x = 1'')"
    using bind_archives [where proc = live_proc and c = c0 and part = 1 and ov = False
        and w = w_notepad and scratch = scratch0] n0 d0
    by (simp add: c0_escapes c0_simps c0_formatted universal_newlines_scratch0 cleaned_scratch0)
  have m: "ascii ''x = 1'' \<in> set (split_nl (rstrip (re_sub_bind None scratch0)))"
    by (simp add: cleaned_scratch0 split_cleaned_scratch0)
  have b2: "\<not> is_bind_line (ascii ''x = 1'')" using cleaned_no_bind_line [OF m] .
  have ne: "rstrip (re_sub_bind None scratch0) \<noteq> []" by (simp add: cleaned_scratch0 ascii_def)
  have b3: "\<not> is_space (last (rstrip (re_sub_bind None scratch0)))"
    using rstrip_trimmed [of "re_sub_bind None scratch0"] ne by blast
  show ?thesis using d a1 a2 b1 d0 c1 m b2 b3 by simp
qed

section \<open>A correct live submission\<close>

text \<open>
  Claim C4 says that no failure during archiving or formatting makes the host process
  fail. At this input the submission is live and correct, auto-bind and formatting are
  enabled, the scratch file exists and \<^verbatim>\<open>subprocess.run\<close> raises \<^verbatim>\<open>PermissionError\<close>. The
  handler of the formatter step catches \<^verbatim>\<open>CalledProcessError\<close> and \<^verbatim>\<open>FileNotFoundError\<close> only, so
  the exception leaves \<^verbatim>\<open>bind\<close> and \<^verbatim>\<open>submit\<close>. The star update stays persisted.
\<close>

theorem submit_right_answer_formatter_failure:
  "\<not> TEST_MODE live_proc
   \<and> stars_for (progress_file w_notepad) (str_int (year live_proc)) (str_int (day live_proc)) < 1
   \<and> post_answer c_perm (year live_proc) (day live_proc) 1 (PyInt 7) = Inr RIGHT_ANSWER
   \<and> py_in RIGHT_ANSWER RIGHT_ANSWER
   \<and> get_bool_config_setting c_perm (ascii ''auto_bind'') (Some True)
   \<and> get_bool_config_setting c_perm (ascii ''auto_format_on_bind'') (Some True)
   \<and> files w_notepad NOTEPAD_PATH = Some scratch0
   \<and> ruff_format c_perm (Some scratch0) = Inl PermissionError
   \<and> fst (submit live_proc c_perm (PyInt 7) 1 w_notepad) = Inl PermissionError
   \<and> stars_for (progress_file (snd (submit live_proc c_perm (PyInt 7) 1 w_notepad)))
        (str_int (year live_proc)) (str_int (day live_proc)) = 1"
proof -
  have t: "\<not> TEST_MODE live_proc" by (simp add: live_proc_simps)
  have s: "stars_for (progress_file w_notepad) (str_int (year live_proc)) (str_int (day live_proc)) < 1"
    by (simp add: w_notepad_def stars_w0)
  have p: "post_answer c_perm (year live_proc) (day live_proc) 1 (PyInt 7) = Inr RIGHT_ANSWER"
    by (simp add: c_perm_def c_right_def)
  have r: "py_in RIGHT_ANSWER RIGHT_ANSWER" unfolding py_in_iff by (metis append_Nil append_Nil2)
  have n: "files w_notepad NOTEPAD_PATH = Some scratch0" by (simp add: w_notepad_def)
  have f: "ruff_format c_perm (Some scratch0) = Inl PermissionError" by (simp add: c_perm_def)
  have ab: "get_bool_config_setting c_perm (ascii ''auto_bind'') (Some True)"
    by (simp add: c_perm_def c_right_def c0_def)
  have af: "get_bool_config_setting c_perm (ascii ''auto_format_on_bind'') (Some True)"
    by (simp add: c_perm_def c_right_def c0_def)
  have x: "io_fault c_perm (Exists NOTEPAD_PATH) = None"
    by (simp add: c_perm_def c_right_def c0_def)
  let ?pd = "set_stars (progress_file w_notepad) (str_int (year live_proc)) (str_int (day live_proc)) 1"
  let ?w3 = "w_notepad\<lparr>progress_file := ?pd,
       trace := trace w_notepad @ [EvReadProgress, EvPostAnswer (year live_proc) (day live_proc) 1 (PyInt 7),
                                   EvLog INFO, EvWriteProgress ?pd, EvLog INFO]\<rparr>"
  have e: "bind_escapes live_proc c_perm 1 ?w3 = Some PermissionError"
    using af by (simp add: bind_escapes_def formatter_escapes_def x n f)
  have b: "fst (bind live_proc c_perm 1 False ?w3) = Inl PermissionError"
    by (simp add: bind_outcome e)
  from bind_trace [of live_proc c_perm 1 False ?w3]
  have bp: "progress_file (snd (bind live_proc c_perm 1 False ?w3)) = ?pd" by auto
  have sub: "submit live_proc c_perm (PyInt 7) 1 w_notepad =
      and_then (bind live_proc c_perm 1 False ?w3)
        (\<lambda>u w4. (Inr (CHECK_MARK @ ascii '' '' @ RIGHT_ANSWER), w4))"
    unfolding submit_post [OF t _ s, of c_perm "PyInt 7", simplified] Let_def p
    using r ab by simp
  have 1: "fst (submit live_proc c_perm (PyInt 7) 1 w_notepad) = Inl PermissionError"
    unfolding sub using b
    by (cases "bind live_proc c_perm 1 False ?w3") (simp add: and_then_def)
  have 2: "progress_file (snd (submit live_proc c_perm (PyInt 7) 1 w_notepad)) = ?pd"
    unfolding sub using bp
    by (cases "bind live_proc c_perm 1 False ?w3") (simp add: and_then_def split: sum.splits)
  have 3: "stars_for (progress_file (snd (submit live_proc c_perm (PyInt 7) 1 w_notepad)))
        (str_int (year live_proc)) (str_int (day live_proc)) = 1"
    unfolding 2 by (simp add: stars_for_set_stars)
  show ?thesis using t s p r ab af n f 1 3 by blast
qed

text \<open>
  What \<^verbatim>\<open>submit\<close> does on every correct live submission. The star update is written to the
  Progress Store before \<^verbatim>\<open>bind\<close> is entered: the events of the call start with the read,
  the post, a logger record and the write, and the entry into \<^verbatim>\<open>bind\<close> (when auto-bind is
  enabled) comes right after. Nothing that follows writes the Progress Store, so the
  store holds the update at the end, whether \<^verbatim>\<open>submit\<close> returns or raises. \<^verbatim>\<open>submit\<close> raises
  exactly when auto-bind is enabled and an exception escapes one of the steps of \<^verbatim>\<open>bind\<close>
  that have no handler (\<open>bind_escapes\<close>: the two tests for existence and the
  formatter step); it returns the success message otherwise, whatever fails while
  reading the scratch file, writing the destination, committing or clearing. In \<^verbatim>\<open>bind\<close>,
  once the \<^verbatim>\<open>try\<close> block is reached, a failure of any of its steps is caught: \<^verbatim>\<open>bind\<close> returns
  and its last event is a logger record at level ERROR.
\<close>

proposition submit_right_answer:
  "\<not> TEST_MODE proc \<Longrightarrow> part = 1 \<or> part = 2 \<Longrightarrow>
   stars_for (progress_file w) (str_int (year proc)) (str_int (day proc)) < part \<Longrightarrow>
   post_answer c (year proc) (day proc) part answer = Inr response_text \<Longrightarrow>
   py_in RIGHT_ANSWER response_text \<Longrightarrow>
     progress_file (snd (submit proc c answer part w))
       = set_stars (progress_file w) (str_int (year proc)) (str_int (day proc))
           (max (stars_for (progress_file w) (str_int (year proc)) (str_int (day proc))) part)
     \<and> (\<exists>evs. trace (snd (submit proc c answer part w)) =
            trace w @ [EvReadProgress, EvPostAnswer (year proc) (day proc) part answer, EvLog INFO,
                       EvWriteProgress
                         (set_stars (progress_file w) (str_int (year proc)) (str_int (day proc))
                            (max (stars_for (progress_file w) (str_int (year proc)) (str_int (day proc))) part))]
                    @ evs
            \<and> list_all quiet evs
            \<and> (if get_bool_config_setting c (ascii ''auto_bind'') (Some True)
                then take 2 evs = [EvLog INFO, EvCallBind part False]
                else evs = []))
     \<and> fst (submit proc c answer part w) =
         (if get_bool_config_setting c (ascii ''auto_bind'') (Some True)
          then (case bind_escapes proc c part w of
                  Some e \<Rightarrow> Inl e
                | None \<Rightarrow> Inr (CHECK_MARK @ ascii '' '' @ response_text))
          else Inr (CHECK_MARK @ ascii '' '' @ response_text))
     \<and> (\<forall>ov w' scratch.
           files w' NOTEPAD_PATH = Some scratch \<and> bind_escapes proc c part w' = None
           \<and> (ov \<or> files w' (dest_path proc part) = None) \<and> archive_fault proc c part \<longrightarrow>
           fst (bind proc c part ov w') = Inr ()
           \<and> last (trace (snd (bind proc c part ov w'))) = EvLog ERROR)"
proof -
  assume t: "\<not> TEST_MODE proc" and v: "part = 1 \<or> part = 2"
    and lt: "stars_for (progress_file w) (str_int (year proc)) (str_int (day proc)) < part"
    and p: "post_answer c (year proc) (day proc) part answer = Inr response_text"
    and r: "py_in RIGHT_ANSWER response_text"
  have mx: "max (stars_for (progress_file w) (str_int (year proc)) (str_int (day proc))) part = part"
    using lt by simp
  let ?pd = "set_stars (progress_file w) (str_int (year proc)) (str_int (day proc)) part"
  let ?pre = "[EvReadProgress, EvPostAnswer (year proc) (day proc) part answer, EvLog INFO, EvWriteProgress ?pd]"
  let ?w3 = "w\<lparr>progress_file := ?pd, trace := trace w @ ?pre\<rparr>"
  let ?w3' = "w\<lparr>progress_file := ?pd,
                trace := trace w @ [EvReadProgress, EvPostAnswer (year proc) (day proc) part answer,
                                    EvLog INFO, EvWriteProgress ?pd, EvLog INFO]\<rparr>"
  let ?ok = "Inr (CHECK_MARK @ ascii '' '' @ response_text) :: py_exception + pystr"
  have sub: "submit proc c answer part w =
      and_then
        (if get_bool_config_setting c (ascii ''auto_bind'') (Some True)
         then bind proc c part False ?w3' else (Inr (), ?w3))
        (\<lambda>u w4. (?ok, w4))"
    unfolding submit_post [OF t v lt] Let_def p using r by simp
  have 4: "\<forall>ov w' scratch.
           files w' NOTEPAD_PATH = Some scratch \<and> bind_escapes proc c part w' = None
           \<and> (ov \<or> files w' (dest_path proc part) = None) \<and> archive_fault proc c part \<longrightarrow>
           fst (bind proc c part ov w') = Inr ()
           \<and> last (trace (snd (bind proc c part ov w'))) = EvLog ERROR"
    using bind_logs_fault [OF v] by blast
  show ?thesis
  proof (cases "get_bool_config_setting c (ascii ''auto_bind'') (Some True)")
    case False
    then have s: "submit proc c answer part w = (?ok, ?w3)"
      unfolding sub by (simp add: and_then_def)
    have "trace (snd (submit proc c answer part w)) = trace w @ ?pre @ [] \<and> list_all quiet []
           \<and> (if get_bool_config_setting c (ascii ''auto_bind'') (Some True)
                then take 2 [] = [EvLog INFO, EvCallBind part False]
                else [] = ([] :: event list))"
      unfolding s using False by simp
    then have ex: "\<exists>evs. trace (snd (submit proc c answer part w)) = trace w @ ?pre @ evs
            \<and> list_all quiet evs
            \<and> (if get_bool_config_setting c (ascii ''auto_bind'') (Some True)
                then take 2 evs = [EvLog INFO, EvCallBind part False]
                else evs = [])"
      by (rule exI)
    have pf: "progress_file (snd (submit proc c answer part w)) = ?pd" unfolding s by simp
    have f: "fst (submit proc c answer part w) = ?ok" unfolding s by simp
    show ?thesis unfolding mx using pf ex f False 4 by simp
  next
    case True
    obtain rb wb where b: "bind proc c part False ?w3' = (rb, wb)"
      by (cases "bind proc c part False ?w3'")
    from bind_trace [of proc c part False ?w3'] b obtain evs where
      tb: "trace wb = trace ?w3' @ EvCallBind part False # evs" and q: "list_all quiet evs"
      and pb: "progress_file wb = ?pd"
      by auto
    have fe0: "formatter_escapes c ?w3' = formatter_escapes c w"
      by (simp add: formatter_escapes_def)
    have fe: "bind_escapes proc c part ?w3' = bind_escapes proc c part w"
      unfolding bind_escapes_def fe0 by (simp split: option.splits)
    have rb: "rb = (case bind_escapes proc c part w of Some e \<Rightarrow> Inl e | None \<Rightarrow> Inr ())"
      using bind_outcome [of proc c part False ?w3'] b v fe by simp
    have sw: "snd (submit proc c answer part w) = wb"
      unfolding sub using True b by (simp add: and_then_def split: sum.splits)
    have f: "fst (submit proc c answer part w) =
        (case bind_escapes proc c part w of Some e \<Rightarrow> Inl e | None \<Rightarrow> ?ok)"
      unfolding sub using True b rb by (simp add: and_then_def split: option.splits)
    have "trace (snd (submit proc c answer part w)) = trace w @ ?pre @ (EvLog INFO # EvCallBind part False # evs)
           \<and> list_all quiet (EvLog INFO # EvCallBind part False # evs)
           \<and> (if get_bool_config_setting c (ascii ''auto_bind'') (Some True)
                then take 2 (EvLog INFO # EvCallBind part False # evs) = [EvLog INFO, EvCallBind part False]
                else EvLog INFO # EvCallBind part False # evs = [])"
      unfolding sw using tb q True by simp
    then have ex: "\<exists>evs. trace (snd (submit proc c answer part w)) = trace w @ ?pre @ evs
            \<and> list_all quiet evs
            \<and> (if get_bool_config_setting c (ascii ''auto_bind'') (Some True)
                then take 2 evs = [EvLog INFO, EvCallBind part False]
                else evs = [])"
      by (rule exI)
    have pf: "progress_file (snd (submit proc c answer part w)) = ?pd" unfolding sw by (rule pb)
    show ?thesis unfolding mx using pf ex f True 4 by simp
  qed
qed

text \<open>
  At a concrete input: the write of the destination fails, \<^verbatim>\<open>submit\<close> still returns the
  success message with the star recorded, and \<^verbatim>\<open>bind\<close> returns after logging the error.
\<close>

proposition submit_right_answer_example:
  "\<not> TEST_MODE live_proc \<and> ((1::int) = 1 \<or> (1::int) = 2)
   \<and> stars_for (progress_file w_notepad) (str_int (year live_proc)) (str_int (day live_proc)) < 1
   \<and> post_answer c_fault (year live_proc) (day live_proc) 1 (PyInt 7) = Inr RIGHT_ANSWER
   \<and> py_in RIGHT_ANSWER RIGHT_ANSWER
   \<and> fst (submit live_proc c_fault (PyInt 7) 1 w_notepad) = Inr (CHECK_MARK @ ascii '' '' @ RIGHT_ANSWER)
   \<and> stars_for (progress_file (snd (submit live_proc c_fault (PyInt 7) 1 w_notepad)))
        (str_int (year live_proc)) (str_int (day live_proc)) = 1
   \<and> files w_notepad NOTEPAD_PATH = Some scratch0 \<and> bind_escapes live_proc c_fault 1 w_notepad = None
   \<and> files w_notepad (dest_path live_proc 1) = None
   \<and> archive_fault live_proc c_fault 1
   \<and> fst (bind live_proc c_fault 1 False w_notepad) = Inr ()
   \<and> last (trace (snd (bind live_proc c_fault 1 False w_notepad))) = EvLog ERROR"
proof -
  have t: "\<not> TEST_MODE live_proc" by (simp add: live_proc_simps)
  have v: "(1::int) = 1 \<or> (1::int) = 2" by simp
  have s: "stars_for (progress_file w_notepad) (str_int (year live_proc)) (str_int (day live_proc)) < 1"
    by (simp add: w_notepad_def stars_w0)
  have p: "post_answer c_fault (year live_proc) (day live_proc) 1 (PyInt 7) = Inr RIGHT_ANSWER"
    by (simp add: c_fault_def c_right_def)
  have r: "py_in RIGHT_ANSWER RIGHT_ANSWER" unfolding py_in_iff by (metis append_Nil append_Nil2)
  have n: "files w_notepad NOTEPAD_PATH = Some scratch0" by (simp add: w_notepad_def)
  have d: "files w_notepad (dest_path live_proc 1) = None" by (simp add: w_notepad_def)
  have e: "bind_escapes live_proc c_fault 1 w_notepad = None"
    by (simp add: bind_escapes_def formatter_escapes_def n c_fault_def c_right_def c0_def)
  have a: "archive_fault live_proc c_fault 1"
    by (simp add: archive_fault_def c_fault_def)
  have ab: "get_bool_config_setting c_fault (ascii ''auto_bind'') (Some True)"
    by (simp add: c_fault_def c_right_def c0_def)
  have m: "max (stars_for (progress_file w_notepad) (str_int (year live_proc)) (str_int (day live_proc))) 1 = 1"
    using s by simp
  note A = submit_right_answer [OF t v s p r]
  have 1: "fst (submit live_proc c_fault (PyInt 7) 1 w_notepad) = Inr (CHECK_MARK @ ascii '' '' @ RIGHT_ANSWER)"
    using conjunct1 [OF conjunct2 [OF conjunct2 [OF A]]] ab e by simp
  have 2: "stars_for (progress_file (snd (submit live_proc c_fault (PyInt 7) 1 w_notepad)))
        (str_int (year live_proc)) (str_int (day live_proc)) = 1"
    using conjunct1 [OF A] m by (simp add: stars_for_set_stars)
  have 3: "fst (bind live_proc c_fault 1 False w_notepad) = Inr ()
      \<and> last (trace (snd (bind live_proc c_fault 1 False w_notepad))) = EvLog ERROR"
    using conjunct2 [OF conjunct2 [OF conjunct2 [OF A]]] n e d a by blast
  show ?thesis using t v s p r 1 2 n e d a 3 by blast
qed

text \<open>
  At another input: the test \<^verbatim>\<open>source_path.exists()\<close> of \<^verbatim>\<open>bind\<close>, which stands outside the
  \<^verbatim>\<open>try\<close> block, raises \<^verbatim>\<open>PermissionError\<close>. The exception leaves \<^verbatim>\<open>bind\<close> and \<^verbatim>\<open>submit\<close>, and
  the star stays recorded.
\<close>

proposition submit_right_answer_exists_failure:
  "io_fault c_denied (Exists NOTEPAD_PATH) = Some PermissionError
   \<and> fst (bind live_proc c_denied 1 False w_notepad) = Inl PermissionError
   \<and> fst (submit live_proc c_denied (PyInt 7) 1 w_notepad) = Inl PermissionError
   \<and> stars_for (progress_file (snd (submit live_proc c_denied (PyInt 7) 1 w_notepad)))
        (str_int (year live_proc)) (str_int (day live_proc)) = 1"
proof -
  have t: "\<not> TEST_MODE live_proc" by (simp add: live_proc_simps)
  have v: "(1::int) = 1 \<or> (1::int) = 2" by simp
  have s: "stars_for (progress_file w_notepad) (str_int (year live_proc)) (str_int (day live_proc)) < 1"
    by (simp add: w_notepad_def stars_w0)
  have p: "post_answer c_denied (year live_proc) (day live_proc) 1 (PyInt 7) = Inr RIGHT_ANSWER"
    by (simp add: c_denied_def c_right_def)
  have r: "py_in RIGHT_ANSWER RIGHT_ANSWER" unfolding py_in_iff by (metis append_Nil append_Nil2)
  have x: "io_fault c_denied (Exists NOTEPAD_PATH) = Some PermissionError"
    by (simp add: c_denied_def)
  have e: "bind_escapes live_proc c_denied 1 w_notepad = Some PermissionError"
    by (simp add: bind_escapes_def x)
  have ab: "get_bool_config_setting c_denied (ascii ''auto_bind'') (Some True)"
    by (simp add: c_denied_def c_right_def c0_def)
  have m: "max (stars_for (progress_file w_notepad) (str_int (year live_proc)) (str_int (day live_proc))) 1 = 1"
    using s by simp
  note A = submit_right_answer [OF t v s p r]
  have 0: "fst (bind live_proc c_denied 1 False w_notepad) = Inl PermissionError"
    by (simp add: bind_outcome e)
  have 1: "fst (submit live_proc c_denied (PyInt 7) 1 w_notepad) = Inl PermissionError"
    using conjunct1 [OF conjunct2 [OF conjunct2 [OF A]]] ab e by simp
  have 2: "stars_for (progress_file (snd (submit live_proc c_denied (PyInt 7) 1 w_notepad)))
        (str_int (year live_proc)) (str_int (day live_proc)) = 1"
    using conjunct1 [OF A] m by (simp add: stars_for_set_stars)
  show ?thesis using x 0 1 2 by blast
qed

end
